theory Spec2Isabelle
  imports Complex_Main "HOL-Library.Sublist"
begin

section \<open>Python values the model needs\<close>

text \<open>
  Exceptions of the Python runtime and of the libraries the code calls are values:
  a function that can raise returns \<open>py_error + 'a\<close>, with \<open>Inl\<close> for the exception.
  Python floats are idealised as reals (rounding is not modelled); Python ints are \<open>int\<close>.
\<close>

datatype py_error =
  IndexError | KeyError | ValueError | StatisticsError | NetworkXError | ZeroDivisionError

text \<open>
  The module \<open>random\<close> is modelled by an explicit draw: every call that consumes randomness
  takes a natural number \<open>r\<close>, and every outcome the call can produce is the outcome of
  some \<open>r\<close>. \<open>random.choice(seq)\<close> raises IndexError on an empty sequence.
\<close>

definition random_choice :: "nat \<Rightarrow> 'a list \<Rightarrow> py_error + 'a" where
  "random_choice r xs = (if xs = [] then Inl IndexError else Inr (xs ! (r mod length xs)))"

section \<open>vulnerabilities.py\<close>

text \<open>\<open>Privilege = Literal[0, 1, 2]\<close> with \<open>PRIV_GUEST = 0\<close>, \<open>PRIV_USER = 1\<close>, \<open>PRIV_ROOT = 2\<close>;
  comparisons are those of the integers.\<close>

datatype Privilege = PRIV_GUEST | PRIV_USER | PRIV_ROOT

fun priv_int :: "Privilege \<Rightarrow> nat" where
  "priv_int PRIV_GUEST = 0"
| "priv_int PRIV_USER = 1"
| "priv_int PRIV_ROOT = 2"

fun PRIVILEGE_STR :: "Privilege \<Rightarrow> string" where
  "PRIVILEGE_STR PRIV_GUEST = ''guest''"
| "PRIVILEGE_STR PRIV_USER = ''user''"
| "PRIVILEGE_STR PRIV_ROOT = ''root''"

record SteeringBaseFeatures =
  base_score :: real
  impact_score :: real
  exploitability_score :: real
  access_vector :: int
  access_complexity :: int
  authentication :: int
  confidentiality_impact :: int
  integrity_impact :: int
  availability_impact :: int
  base_severity :: int

record Vulnerability =
  cve_id :: string
  base_features :: SteeringBaseFeatures
  priv_required :: Privilege
  priv_gained :: Privilege

text \<open>The properties \<open>impact\<close>, \<open>likelihood\<close> and \<open>score\<close> of a Vulnerability.\<close>

definition vuln_impact :: "Vulnerability \<Rightarrow> real" where
  "vuln_impact v = impact_score (base_features v)"

definition vuln_likelihood :: "Vulnerability \<Rightarrow> real" where
  "vuln_likelihood v = exploitability_score (base_features v)"

definition vuln_score :: "Vulnerability \<Rightarrow> real" where
  "vuln_score v = base_score (base_features v)"

text \<open>\<open>SteeringBaseFeatures.default()\<close>.\<close>

definition default_features :: SteeringBaseFeatures where
  "default_features = \<lparr> base_score = 5, impact_score = 5, exploitability_score = 5,
     access_vector = 0, access_complexity = 0, authentication = 0,
     confidentiality_impact = 0, integrity_impact = 0, availability_impact = 0,
     base_severity = 0 \<rparr>"

text \<open>\<open>RPSTR2PRIV\<close>: a dictionary, so a missing key raises KeyError.\<close>

definition RPSTR2PRIV :: "string \<Rightarrow> py_error + Privilege" where
  "RPSTR2PRIV s =
     (if s = ''NONE'' then Inr PRIV_GUEST
      else if s = ''LOW'' then Inr PRIV_GUEST
      else if s = ''SINGLE'' then Inr PRIV_USER
      else if s = ''MEDIUM'' then Inr PRIV_USER
      else if s = ''MULTIPLE'' then Inr PRIV_USER
      else if s = ''HIGH'' then Inr PRIV_ROOT
      else if s = ''CRITICAL'' then Inr PRIV_ROOT
      else Inl KeyError)"

text \<open>
  \<open>Vulnerability._get_privileges(v2, v3)\<close>. Of the CVSS v2 metric the function reads
  \<open>authentication\<close>, \<open>obtainAllPrivilege\<close> and \<open>obtainUserPrivilege\<close>; of the v3 metric
  \<open>privilegesRequired\<close> and \<open>scope\<close>. An absent metric is \<open>None\<close>. The result is
  \<open>(priv_required, priv_gained)\<close>.
\<close>

fun get_privileges ::
  "(string \<times> bool \<times> bool) option \<Rightarrow> (string \<times> string) option \<Rightarrow> py_error + (Privilege \<times> Privilege)"
where
  "get_privileges (Some (auth, oap, oup)) v3 =
     (case RPSTR2PRIV auth of
        Inl e \<Rightarrow> Inl e
      | Inr req_priv \<Rightarrow>
          Inr (req_priv, if oap then PRIV_ROOT else if oup then PRIV_USER else PRIV_USER))"
| "get_privileges None (Some (pr, scope)) =
     (case RPSTR2PRIV pr of
        Inl e \<Rightarrow> Inl e
      | Inr req_priv \<Rightarrow>
          Inr (req_priv, if scope = ''UNCHANGED'' then req_priv else PRIV_USER))"
| "get_privileges None None = Inr (PRIV_GUEST, PRIV_GUEST)"

section \<open>model.py\<close>

text \<open>A host; of its fields the core reads \<open>id\<close> and \<open>cves\<close> (the services map, the
  domain and the plot coordinates are not read by any function modelled here).\<close>

record NetworkHost =
  host_id :: int
  hostname :: string
  ipv4 :: string
  cves :: "string list"

text \<open>
  The attack graph model: the hosts dictionary, the vulnerability pool (the attribute is
  spelled \<open>vulnerabilties\<close> in the source) and the directed graph, kept as the list of its
  edges in insertion order.
\<close>

record AttackGraphModel =
  hosts :: "int \<rightharpoonup> NetworkHost"
  vulnerabilties :: "string \<rightharpoonup> Vulnerability"
  graph_edges :: "(int \<times> int) list"

text \<open>The loop of \<open>sample_cve_on_host\<close> that keeps the CVEs whose required privilege is
  at most the current one; \<open>self.vulnerabilties[cve]\<close> raises KeyError for a CVE that is
  not in the pool.\<close>

fun filter_by_priv ::
  "(string \<rightharpoonup> Vulnerability) \<Rightarrow> Privilege \<Rightarrow> string list \<Rightarrow> py_error + string list"
where
  "filter_by_priv pool current_priv [] = Inr []"
| "filter_by_priv pool current_priv (cve # rest) =
     (case pool cve of
        None \<Rightarrow> Inl KeyError
      | Some v \<Rightarrow>
          (case filter_by_priv pool current_priv rest of
             Inl e \<Rightarrow> Inl e
           | Inr filtered \<Rightarrow>
               Inr (if priv_int (priv_required v) \<le> priv_int current_priv
                    then cve # filtered else filtered)))"

text \<open>
  \<open>AttackGraphModel.sample_cve_on_host(host_id, current_priv, preferred_cves)\<close>; the last
  argument is the draw of \<open>random.choice\<close>. The result is \<open>Inr None\<close> for Python's
  \<open>None\<close>, \<open>Inr (Some cve)\<close> for a CVE and \<open>Inl e\<close> for an exception.
\<close>

function sample_cve_on_host ::
  "AttackGraphModel \<Rightarrow> int \<Rightarrow> Privilege \<Rightarrow> string set option \<Rightarrow> nat \<Rightarrow> py_error + string option"
where
  "sample_cve_on_host m hid current_priv None r =
     (case hosts m hid of
        None \<Rightarrow> Inl KeyError
      | Some host \<Rightarrow>
          if current_priv = PRIV_ROOT then map_sum id Some (random_choice r (cves host))
          else (case filter_by_priv (vulnerabilties m) current_priv (cves host) of
                  Inl e \<Rightarrow> Inl e
                | Inr filtered \<Rightarrow>
                    if filtered = [] then Inr None
                    else map_sum id Some (random_choice r filtered)))"
| "sample_cve_on_host m hid current_priv (Some preferred_cves) r =
     (case hosts m hid of
        None \<Rightarrow> Inl KeyError
      | Some host \<Rightarrow>
          let cs = filter (\<lambda>cve. cve \<in> preferred_cves) (cves host) in
          if cs = [] then sample_cve_on_host m hid current_priv None r
          else if current_priv = PRIV_ROOT then map_sum id Some (random_choice r cs)
          else (case filter_by_priv (vulnerabilties m) current_priv cs of
                  Inl e \<Rightarrow> Inl e
                | Inr filtered \<Rightarrow>
                    if filtered = [] then sample_cve_on_host m hid current_priv None r
                    else map_sum id Some (random_choice r filtered)))"
  by pat_completeness auto
termination
  by (relation "measure (\<lambda>(m, hid, current_priv, preferred_cves, r).
         case preferred_cves of None \<Rightarrow> 0 | Some _ \<Rightarrow> 1)") auto

text \<open>A CVE is barred at a privilege when it is in the pool and its required privilege
  is not at most that privilege.\<close>

definition barred :: "AttackGraphModel \<Rightarrow> Privilege \<Rightarrow> string \<Rightarrow> bool" where
  "barred m current_priv cve =
     (case vulnerabilties m cve of
        None \<Rightarrow> False
      | Some v \<Rightarrow> \<not> priv_int (priv_required v) \<le> priv_int current_priv)"

text \<open>\<open>host.cves\<close> and the list \<open>[cve for cve in host.cves if cve in preferred_cves]\<close>
  of a host id (empty when the id is not a host).\<close>

definition cves_on_host :: "AttackGraphModel \<Rightarrow> int \<Rightarrow> string list" where
  "cves_on_host m hid = (case hosts m hid of None \<Rightarrow> [] | Some host \<Rightarrow> cves host)"

definition preferred_on_host :: "AttackGraphModel \<Rightarrow> int \<Rightarrow> string set \<Rightarrow> string list" where
  "preferred_on_host m hid preferred_cves =
     filter (\<lambda>cve. cve \<in> preferred_cves) (cves_on_host m hid)"

section \<open>Strings\<close>

text \<open>\<open>str(n)\<close> of a Python int: decimal digits, with a minus sign when negative.\<close>

fun str_nat :: "nat \<Rightarrow> string" where
  "str_nat n =
     (if n < 10 then [''0123456789'' ! n]
      else str_nat (n div 10) @ [''0123456789'' ! (n mod 10)])"

declare str_nat.simps [simp del]

definition str_int :: "int \<Rightarrow> string" where
  "str_int i = (if i < 0 then CHR ''-'' # str_nat (nat (- i)) else str_nat (nat i))"

text \<open>\<open>sep.join(parts)\<close>.\<close>

fun join :: "string \<Rightarrow> string list \<Rightarrow> string" where
  "join sep [] = []"
| "join sep [p] = p"
| "join sep (p # q # ps) = p @ sep @ join sep (q # ps)"

text \<open>
  \<open>s.split(sep)\<close> for a non-empty separator: the pieces between the leftmost
  non-overlapping occurrences of \<open>sep\<close>. \<open>cur\<close> is the piece being read, reversed.
\<close>

fun split_acc :: "string \<Rightarrow> string \<Rightarrow> string \<Rightarrow> string list" where
  "split_acc sep cur [] = [rev cur]"
| "split_acc sep cur (c # cs) =
     (if sep \<noteq> [] \<and> prefix sep (c # cs)
      then rev cur # split_acc sep [] (drop (length sep - 1) cs)
      else split_acc sep (c # cur) cs)"

definition split :: "string \<Rightarrow> string \<Rightarrow> string list" where
  "split s sep = split_acc sep [] s"

text \<open>
  \<open>int(s)\<close> on a string of ASCII characters: surrounding whitespace (space, tab, line
  feed, vertical tab, form feed, carriage return) is skipped, a sign is optional, the
  digits may be separated by single underscores; anything else raises ValueError.
\<close>

definition is_space :: "char \<Rightarrow> bool" where
  "is_space c = (c \<in> set [CHR '' '', CHR 0x09, CHR 0x0A, CHR 0x0B, CHR 0x0C, CHR 0x0D])"

definition strip :: "string \<Rightarrow> string" where
  "strip s = rev (dropWhile is_space (rev (dropWhile is_space s)))"

definition digit_val :: "char \<Rightarrow> nat option" where
  "digit_val c =
     map_of [(CHR ''0'', 0), (CHR ''1'', 1), (CHR ''2'', 2), (CHR ''3'', 3), (CHR ''4'', 4),
             (CHR ''5'', 5), (CHR ''6'', 6), (CHR ''7'', 7), (CHR ''8'', 8), (CHR ''9'', 9)] c"

text \<open>The digits of a literal, most significant first; \<open>prev_digit\<close> tells whether the
  character before was a digit (an underscore is only allowed between two digits).\<close>

fun digits_val :: "bool \<Rightarrow> nat \<Rightarrow> string \<Rightarrow> nat option" where
  "digits_val prev_digit acc [] = (if prev_digit then Some acc else None)"
| "digits_val prev_digit acc (c # cs) =
     (if c = CHR ''_'' then (if prev_digit \<and> cs \<noteq> [] then digits_val False acc cs else None)
      else (case digit_val c of
              None \<Rightarrow> None
            | Some d \<Rightarrow> digits_val True (10 * acc + d) cs))"

definition py_int :: "string \<Rightarrow> py_error + int" where
  "py_int s =
     (let t = strip s;
          (neg, ds) = (case t of
                         c # cs \<Rightarrow> if c = CHR ''-'' then (True, cs)
                                   else if c = CHR ''+'' then (False, cs)
                                   else (False, t)
                       | [] \<Rightarrow> (False, t))
      in case digits_val False 0 ds of
           None \<Rightarrow> Inl ValueError
         | Some n \<Rightarrow> Inr (if neg then - int n else int n))"

section \<open>attack_paths.py: AttackPath\<close>

type_synonym Edge = "int \<times> int"

text \<open>\<open>statistics.mean\<close> and \<open>statistics.median\<close>; both raise StatisticsError on no data.\<close>

definition statistics_mean :: "real list \<Rightarrow> py_error + real" where
  "statistics_mean xs =
     (if xs = [] then Inl StatisticsError else Inr (sum_list xs / real (length xs)))"

definition statistics_median :: "real list \<Rightarrow> py_error + real" where
  "statistics_median xs =
     (let data = sort xs; n = length data
      in if n = 0 then Inl StatisticsError
         else if n mod 2 = 1 then Inr (data ! (n div 2))
         else Inr ((data ! (n div 2 - 1) + data ! (n div 2)) / 2))"

record AttackPath =
  ap_trace :: string
  ap_length :: nat
  ap_likelihood :: real
  ap_impact :: real
  ap_score :: real
  ap_risk :: real
  ap_damage :: real
  ap_hash :: string
  ap_vulns :: "Vulnerability list"
  ap_edges :: "Edge list"

text \<open>
  \<open>AttackPath.__init__(trace, vulns, edges)\<close>. The first argument stands for
  \<open>hashlib.sha256(trace.encode()).hexdigest()\<close>, a function of the trace that the model
  takes as a parameter. With no vulnerability the first statement to raise is the mean.
\<close>

definition AttackPath_init ::
  "(string \<Rightarrow> string) \<Rightarrow> string \<Rightarrow> Vulnerability list \<Rightarrow> Edge list \<Rightarrow> py_error + AttackPath"
where
  "AttackPath_init sha256_hexdigest trace vulns edges =
     (case statistics_mean (map vuln_likelihood vulns) of
        Inl e \<Rightarrow> Inl e
      | Inr likelihood \<Rightarrow>
          if vulns = [] then Inl IndexError
          else
            let impact = vuln_impact (last vulns) in
            (case statistics_median (map vuln_score vulns) of
               Inl e \<Rightarrow> Inl e
             | Inr score \<Rightarrow>
                 let risk = likelihood * impact / 10 in
                 (case statistics_mean (map vuln_impact vulns) of
                    Inl e \<Rightarrow> Inl e
                  | Inr damage \<Rightarrow>
                      Inr \<lparr> ap_trace = trace, ap_length = length vulns,
                            ap_likelihood = likelihood, ap_impact = impact,
                            ap_score = score, ap_risk = risk, ap_damage = damage,
                            ap_hash = sha256_hexdigest trace,
                            ap_vulns = vulns, ap_edges = edges \<rparr>)))"

text \<open>
  \<open>AttackPath.from_trace(trace, model)\<close>: the loop over the steps of the trace, then the
  constructor. Unpacking a step that does not split in three raises ValueError; a host
  field without \<open>@\<close> raises IndexError.
\<close>

definition host_of_field :: "string \<Rightarrow> py_error + int" where
  "host_of_field field =
     (case split field ''@'' of
        a # b # rest \<Rightarrow> py_int b
      | _ \<Rightarrow> Inl IndexError)"

fun parse_steps ::
  "AttackGraphModel \<Rightarrow> string list \<Rightarrow> py_error + (Edge list \<times> Vulnerability list)"
where
  "parse_steps m [] = Inr ([], [])"
| "parse_steps m (step # rest) =
     (case split step ''#'' of
        [priv_source, cve, priv_target] \<Rightarrow>
          (case host_of_field priv_source of
             Inl e \<Rightarrow> Inl e
           | Inr source \<Rightarrow>
               (case host_of_field priv_target of
                  Inl e \<Rightarrow> Inl e
                | Inr target \<Rightarrow>
                    (case vulnerabilties m cve of
                       None \<Rightarrow> Inl KeyError
                     | Some vuln \<Rightarrow>
                         (case parse_steps m rest of
                            Inl e \<Rightarrow> Inl e
                          | Inr (edges, vulns) \<Rightarrow> Inr ((source, target) # edges, vuln # vulns)))))
      | _ \<Rightarrow> Inl ValueError)"

definition from_trace ::
  "(string \<Rightarrow> string) \<Rightarrow> string \<Rightarrow> AttackGraphModel \<Rightarrow> py_error + AttackPath"
where
  "from_trace sha256_hexdigest trace m =
     (case parse_steps m (split trace ''##'') of
        Inl e \<Rightarrow> Inl e
      | Inr (edges, vulns) \<Rightarrow> AttackPath_init sha256_hexdigest trace vulns edges)"

section \<open>generation.py: the attack-path builder\<close>

text \<open>
  The loop of \<open>convert_reachability_to_ap\<close> over the edges of the reachability path,
  from the privilege held on the source. It returns the exploited vulnerabilities and the
  trace steps in order. \<open>rnd k\<close> is the draw used at the \<open>k\<close>-th edge. The step text is
  written after \<open>priv_on_source\<close> has been set to the privilege gained, as in the source.
\<close>

fun exploit_loop ::
  "AttackGraphModel \<Rightarrow> string set option \<Rightarrow> Privilege \<Rightarrow> Edge list \<Rightarrow> (nat \<Rightarrow> nat)
     \<Rightarrow> py_error + (Vulnerability list \<times> string list)"
where
  "exploit_loop m preferred_cves priv_on_source [] rnd = Inr ([], [])"
| "exploit_loop m preferred_cves priv_on_source ((source_host, target_host) # rest) rnd =
     (case sample_cve_on_host m target_host priv_on_source preferred_cves (rnd 0) of
        Inl e \<Rightarrow> Inl e
      | Inr None \<Rightarrow> Inr ([], [])
      | Inr (Some cve) \<Rightarrow>
          (case vulnerabilties m cve of
             None \<Rightarrow> Inl KeyError
           | Some vuln \<Rightarrow>
               let priv_gained = priv_gained vuln;
                   priv_on_source' = priv_gained;
                   step = PRIVILEGE_STR priv_on_source' @ ''@'' @ str_int source_host @ ''#''
                          @ cve @ ''#'' @ PRIVILEGE_STR priv_gained @ ''@'' @ str_int target_host
               in (case exploit_loop m preferred_cves priv_on_source' rest (\<lambda>k. rnd (Suc k)) of
                     Inl e \<Rightarrow> Inl e
                   | Inr (exploited_vulns, trace_steps) \<Rightarrow>
                       Inr (vuln # exploited_vulns, step # trace_steps))))"

text \<open>\<open>PathGenerator.convert_reachability_to_ap(path, preferred_cves)\<close>; \<open>Inr None\<close> is
  Python's \<open>None\<close>.\<close>

definition convert_reachability_to_ap ::
  "(string \<Rightarrow> string) \<Rightarrow> AttackGraphModel \<Rightarrow> Edge list \<Rightarrow> string set option \<Rightarrow> (nat \<Rightarrow> nat)
     \<Rightarrow> py_error + AttackPath option"
where
  "convert_reachability_to_ap sha256_hexdigest m path preferred_cves rnd =
     (case exploit_loop m preferred_cves PRIV_GUEST path rnd of
        Inl e \<Rightarrow> Inl e
      | Inr (exploited_vulns, trace_steps) \<Rightarrow>
          if exploited_vulns = [] then Inr None
          else
            let trace = join ''##'' trace_steps;
                ap_length = length exploited_vulns
            in map_sum id Some
                 (AttackPath_init sha256_hexdigest trace exploited_vulns (take ap_length path)))"

text \<open>The privileges held along an attack path: guest on the foothold, then the privilege
  gained by each exploited vulnerability.\<close>

definition privilege_sequence :: "AttackPath \<Rightarrow> Privilege list" where
  "privilege_sequence ap = PRIV_GUEST # map priv_gained (ap_vulns ap)"

text \<open>Every exploited vulnerability requires at most the privilege held before it, the
  privilege held after it being the one it grants.\<close>

fun privilege_consistent :: "Privilege \<Rightarrow> Vulnerability list \<Rightarrow> bool" where
  "privilege_consistent held [] = True"
| "privilege_consistent held (v # vs) =
     (priv_int (priv_required v) \<le> priv_int held \<and> privilege_consistent (priv_gained v) vs)"

section \<open>sampling.py\<close>

text \<open>
  The graph of the model (networkx's DiGraph): a node is a host that was added or an end of
  an edge; successors and predecessors come in the order the edges were first inserted;
  asking for the neighbours of something that is not a node raises NetworkXError.
\<close>

definition first_occurrences :: "'a list \<Rightarrow> 'a list" where
  "first_occurrences xs = rev (remdups (rev xs))"

definition is_node :: "AttackGraphModel \<Rightarrow> int \<Rightarrow> bool" where
  "is_node m h =
     (hosts m h \<noteq> None \<or> h \<in> fst ` set (graph_edges m) \<or> h \<in> snd ` set (graph_edges m))"

definition successors :: "AttackGraphModel \<Rightarrow> int \<Rightarrow> py_error + int list" where
  "successors m h =
     (if is_node m h
      then Inr (first_occurrences (map snd (filter (\<lambda>e. fst e = h) (graph_edges m))))
      else Inl NetworkXError)"

definition predecessors :: "AttackGraphModel \<Rightarrow> int \<Rightarrow> py_error + int list" where
  "predecessors m h =
     (if is_node m h
      then Inr (first_occurrences (map fst (filter (\<lambda>e. snd e = h) (graph_edges m))))
      else Inl NetworkXError)"

text \<open>
  The sampler. \<open>edge_weights\<close> is the dictionary from edges to weights; the weights the
  sampler writes are positive integers (4 at first, then increased, or divided by 100
  when at least 100), so they are naturals here. The strategy object and the counter of
  sampled paths are not read by the functions below.
\<close>

record PathSampler =
  model :: AttackGraphModel
  min_length :: int
  max_length :: int
  valid_hosts :: "int list"
  use_dynamic_weights :: bool
  edge_weights :: "Edge \<rightharpoonup> nat"

text \<open>More of the module \<open>random\<close>: \<open>random()\<close> is a multiple of \<open>1 / 2 ^ 53\<close> in \<open>[0, 1)\<close>;
  \<open>randint(a, b)\<close> raises ValueError on an empty range; \<open>sample(population, 1, counts)\<close>
  picks a position among \<open>sum(counts)\<close> and returns the element whose cumulative count
  first exceeds it.\<close>

definition random_random :: "nat \<Rightarrow> real" where
  "random_random r = real (r mod 2 ^ 53) / 2 ^ 53"

definition random_randint :: "nat \<Rightarrow> int \<Rightarrow> int \<Rightarrow> py_error + int" where
  "random_randint r a b = (if b < a then Inl ValueError else Inr (a + int r mod (b - a + 1)))"

fun accumulate :: "nat \<Rightarrow> nat list \<Rightarrow> nat list" where
  "accumulate acc [] = []"
| "accumulate acc (c # cs) = (acc + c) # accumulate (acc + c) cs"

definition random_sample_one :: "nat \<Rightarrow> 'a list \<Rightarrow> nat list \<Rightarrow> py_error + 'a" where
  "random_sample_one r population counts =
     (let cum_counts = accumulate 0 counts; total = sum_list counts
      in if length counts \<noteq> length population \<or> total = 0 then Inl ValueError
         else Inr (population ! length (filter (\<lambda>c. c \<le> r mod total) (butlast cum_counts))))"

text \<open>\<open>self.edge_weights[edge]\<close> for each edge of a list.\<close>

fun lookup_weights :: "(Edge \<rightharpoonup> nat) \<Rightarrow> Edge list \<Rightarrow> py_error + nat list" where
  "lookup_weights w [] = Inr []"
| "lookup_weights w (e # es) =
     (case w e of
        None \<Rightarrow> Inl KeyError
      | Some x \<Rightarrow> (case lookup_weights w es of Inl err \<Rightarrow> Inl err | Inr xs \<Rightarrow> Inr (x # xs)))"

text \<open>The list \<open>neighbors\<close> that \<open>_sample_next_host\<close> computes first: the candidates for
  the next host.\<close>

definition unvisited_neighbors ::
  "AttackGraphModel \<Rightarrow> int \<Rightarrow> int set \<Rightarrow> bool \<Rightarrow> py_error + int list"
where
  "unvisited_neighbors m current_host visited forward =
     (case (if forward then successors m current_host else predecessors m current_host) of
        Inl e \<Rightarrow> Inl e
      | Inr ns \<Rightarrow> Inr (filter (\<lambda>host. host \<notin> visited) ns))"

text \<open>\<open>PathSampler._sample_next_host(current_host, visited, forward)\<close>, with its draw.\<close>

definition sample_next_host ::
  "PathSampler \<Rightarrow> int \<Rightarrow> int set \<Rightarrow> bool \<Rightarrow> nat \<Rightarrow> py_error + int option"
where
  "sample_next_host s current_host visited forward r =
     (case unvisited_neighbors (model s) current_host visited forward of
        Inl e \<Rightarrow> Inl e
      | Inr neighbors \<Rightarrow>
          let edge_to = (\<lambda>host. if forward then (current_host, host) else (host, current_host)) in
          (case neighbors of
             [] \<Rightarrow> Inr None
           | [a] \<Rightarrow> Inr (Some a)
           | [a, b] \<Rightarrow>
               if use_dynamic_weights s then
                 (case lookup_weights (edge_weights s) [edge_to a, edge_to b] of
                    Inl e \<Rightarrow> Inl e
                  | Inr ws \<Rightarrow>
                      let wa = ws ! 0; wb = ws ! 1 in
                      if wa + wb = 0 then Inl ZeroDivisionError
                      else Inr (Some (if random_random r < real wa / real (wa + wb) then a else b)))
               else Inr (Some (if random_random r < 1 / 2 then a else b))
           | _ \<Rightarrow>
               if use_dynamic_weights s then
                 (case lookup_weights (edge_weights s) (map edge_to neighbors) of
                    Inl e \<Rightarrow> Inl e
                  | Inr weights \<Rightarrow> map_sum id Some (random_sample_one r neighbors weights))
               else map_sum id Some (random_choice r neighbors)))"

text \<open>
  The loop of \<open>_sample_one_end\<close>: \<open>n\<close> rounds are left, \<open>rnd k\<close> is the draw of the \<open>k\<close>-th
  round from here. The call of \<open>_sample_next_host\<close> passes \<open>forward=True\<close> whatever the
  direction of the walk; the loop stops when \<open>not next_host\<close>, that is on \<open>None\<close> and on
  the host id 0. The set \<open>visited\<close> is the caller's object, so it is returned as well.
\<close>

fun walk ::
  "PathSampler \<Rightarrow> bool \<Rightarrow> nat \<Rightarrow> int \<Rightarrow> int set \<Rightarrow> Edge list \<Rightarrow> (nat \<Rightarrow> nat)
     \<Rightarrow> py_error + (Edge list \<times> int set)"
where
  "walk s forward 0 current_host visited path rnd = Inr (path, visited)"
| "walk s forward (Suc n) current_host visited path rnd =
     (case sample_next_host s current_host visited True (rnd 0) of
        Inl e \<Rightarrow> Inl e
      | Inr None \<Rightarrow> Inr (path, visited)
      | Inr (Some next_host) \<Rightarrow>
          if next_host = 0 then Inr (path, visited)
          else walk s forward n next_host (insert next_host visited)
                 (if forward then path @ [(current_host, next_host)]
                  else (next_host, current_host) # path)
                 (\<lambda>k. rnd (Suc k)))"

text \<open>\<open>PathSampler._sample_one_end(start_host, max_length, forward, visited)\<close>; a caller
  that passes no set passes the empty one.\<close>

definition sample_one_end ::
  "PathSampler \<Rightarrow> int \<Rightarrow> int \<Rightarrow> bool \<Rightarrow> int set \<Rightarrow> (nat \<Rightarrow> nat)
     \<Rightarrow> py_error + (Edge list \<times> int set)"
where
  "sample_one_end s start_host max_len forward visited rnd =
     walk s forward (nat max_len) start_host (insert start_host visited) [] rnd"

text \<open>\<open>int(x)\<close> of a float truncates towards zero.\<close>

definition py_trunc :: "real \<Rightarrow> int" where
  "py_trunc x = (if 0 \<le> x then \<lfloor>x\<rfloor> else \<lceil>x\<rceil>)"

text \<open>\<open>PathSampler._sample_length()\<close>; \<open>g\<close> is the value \<open>random.gauss\<close> returned and \<open>r\<close>
  the draw of \<open>random.randint\<close>.\<close>

definition sample_length :: "PathSampler \<Rightarrow> real \<Rightarrow> nat \<Rightarrow> py_error + int" where
  "sample_length s g r =
     (let len = py_trunc g + min_length s - 1
      in if len < min_length s \<or> len > max_length s
         then random_randint r (min_length s) (max_length s)
         else Inr len)"

text \<open>
  \<open>PassingThrough.sample(sampler)\<close> for the strategy's list \<open>hosts\<close> (here \<open>pivots\<close>).
  The draws: \<open>g\<close> and \<open>r_len\<close> for the length, \<open>r_host\<close> for the start host, \<open>r_half\<close> for
  the split, \<open>rnd1\<close> and \<open>rnd2\<close> for the two walks, which share the set of visited hosts.
\<close>

definition PassingThrough_sample ::
  "PathSampler \<Rightarrow> int list \<Rightarrow> real \<Rightarrow> nat \<Rightarrow> nat \<Rightarrow> nat \<Rightarrow> (nat \<Rightarrow> nat) \<Rightarrow> (nat \<Rightarrow> nat)
     \<Rightarrow> py_error + Edge list"
where
  "PassingThrough_sample s pivots g r_len r_host r_half rnd1 rnd2 =
     (case sample_length s g r_len of
        Inl e \<Rightarrow> Inl e
      | Inr max_len \<Rightarrow>
          (case random_choice r_host pivots of
             Inl e \<Rightarrow> Inl e
           | Inr start_host \<Rightarrow>
               (case random_randint r_half 0 max_len of
                  Inl e \<Rightarrow> Inl e
                | Inr first_half \<Rightarrow>
                    let second_half = max_len - first_half in
                    (case sample_one_end s start_host first_half True {} rnd1 of
                       Inl e \<Rightarrow> Inl e
                     | Inr (first_path, visited) \<Rightarrow>
                         (case sample_one_end s start_host second_half False visited rnd2 of
                            Inl e \<Rightarrow> Inl e
                          | Inr (second_path, visited') \<Rightarrow> Inr (first_path @ second_path))))))"

text \<open>A reachability path reads source to target when each edge starts where the one
  before it ends.\<close>

fun chained :: "Edge list \<Rightarrow> bool" where
  "chained [] = True"
| "chained [e] = True"
| "chained (e # f # es) = (snd e = fst f \<and> chained (f # es))"

section \<open>attack_paths.py: AttackPathStatistics\<close>

definition METRIC_STEPS :: nat where
  "METRIC_STEPS = 100"

definition MAX_LENGTH :: nat where
  "MAX_LENGTH = 40"

text \<open>\<open>get_metric_index(value)\<close>; \<open>int\<close> of a float truncates towards zero.\<close>

definition get_metric_index :: "real \<Rightarrow> int" where
  "get_metric_index v =
     (if v = 10 then int METRIC_STEPS - 1 else py_trunc (v / 10 * real METRIC_STEPS))"

text \<open>
  The statistics object: the six histograms, and the tallies of hosts and edges with
  their sums. (The list \<open>scale\<close> is filled by the constructor and never read or written
  afterwards.)
\<close>

record AttackPathStatistics =
  num_paths :: nat
  likelihoods :: "nat list"
  impacts :: "nat list"
  damages :: "nat list"
  scores :: "nat list"
  lengths :: "nat list"
  risks :: "nat list"
  hosts_count :: "int \<rightharpoonup> nat"
  edges_count :: "int \<rightharpoonup> (int \<rightharpoonup> nat)"
  hosts_sum :: nat
  edges_sum :: nat

definition AttackPathStatistics_init :: AttackPathStatistics where
  "AttackPathStatistics_init =
     \<lparr> num_paths = 0,
       likelihoods = replicate METRIC_STEPS 0, impacts = replicate METRIC_STEPS 0,
       damages = replicate METRIC_STEPS 0, scores = replicate METRIC_STEPS 0,
       lengths = replicate MAX_LENGTH 0, risks = replicate METRIC_STEPS 0,
       hosts_count = Map.empty, edges_count = Map.empty, hosts_sum = 0, edges_sum = 0 \<rparr>"

text \<open>\<open>xs[i] += 1\<close> on a Python list: a negative index counts from the end, an index out
  of range raises IndexError.\<close>

definition py_increment :: "nat list \<Rightarrow> int \<Rightarrow> py_error + nat list" where
  "py_increment xs i =
     (if 0 \<le> i \<and> i < int (length xs) then Inr (xs[nat i := xs ! nat i + 1])
      else if i < 0 \<and> - int (length xs) \<le> i
      then Inr (xs[nat (int (length xs) + i) := xs ! nat (int (length xs) + i) + 1])
      else Inl IndexError)"

text \<open>The same for an index that is not negative.\<close>

definition increment_at :: "nat list \<Rightarrow> nat \<Rightarrow> py_error + nat list" where
  "increment_at xs i = (if i < length xs then Inr (xs[i := xs ! i + 1]) else Inl IndexError)"

text \<open>The property \<open>hosts\<close> of an attack path: the set of the ends of its edges.\<close>

definition ap_hosts :: "AttackPath \<Rightarrow> int set" where
  "ap_hosts ap = fst ` set (ap_edges ap) \<union> snd ` set (ap_edges ap)"

text \<open>The first loop of \<open>_update_hosts_and_edges\<close>: one more traversal of each edge.\<close>

fun count_edges :: "(int \<rightharpoonup> (int \<rightharpoonup> nat)) \<Rightarrow> Edge list \<Rightarrow> (int \<rightharpoonup> (int \<rightharpoonup> nat))" where
  "count_edges ec [] = ec"
| "count_edges ec ((source, target) # es) =
     (let inner = (case ec source of None \<Rightarrow> Map.empty | Some d \<Rightarrow> d);
          inner' = inner(target \<mapsto> (case inner target of None \<Rightarrow> 1 | Some c \<Rightarrow> c + 1))
      in count_edges (ec(source \<mapsto> inner')) es)"

text \<open>\<open>AttackPathStatistics._update_hosts_and_edges(ap)\<close>; it cannot raise.\<close>

definition update_hosts_and_edges :: "AttackPathStatistics \<Rightarrow> AttackPath \<Rightarrow> AttackPathStatistics" where
  "update_hosts_and_edges st ap =
     st\<lparr> edges_count := count_edges (edges_count st) (ap_edges ap),
         edges_sum := edges_sum st + length (ap_edges ap),
         hosts_count := (\<lambda>host. if host \<in> ap_hosts ap
                                 then Some (case hosts_count st host of None \<Rightarrow> 1 | Some c \<Rightarrow> c + 1)
                                 else hosts_count st host),
         hosts_sum := hosts_sum st + card (ap_hosts ap) \<rparr>"

text \<open>The index of \<open>lengths\<close> that \<open>update\<close> increments for a path of length \<open>le\<close>.\<close>

definition length_index :: "nat \<Rightarrow> nat" where
  "length_index le = (if le \<ge> MAX_LENGTH then MAX_LENGTH - 1 else le)"

text \<open>
  The body of the loop of \<open>update\<close> for one path: the tallies of hosts and edges, then the
  histograms of likelihood, impact, score, risk and damage, then the length. The first
  write that raises ends the call.
\<close>

definition update_one :: "AttackPathStatistics \<Rightarrow> AttackPath \<Rightarrow> py_error + AttackPathStatistics" where
  "update_one st0 ap =
     (let st = update_hosts_and_edges st0 ap in
      case py_increment (likelihoods st) (get_metric_index (ap_likelihood ap)) of
        Inl e \<Rightarrow> Inl e
      | Inr li \<Rightarrow>
      (case py_increment (impacts st) (get_metric_index (ap_impact ap)) of
        Inl e \<Rightarrow> Inl e
      | Inr im \<Rightarrow>
      (case py_increment (scores st) (get_metric_index (ap_score ap)) of
        Inl e \<Rightarrow> Inl e
      | Inr sc \<Rightarrow>
      (case py_increment (risks st) (get_metric_index (ap_risk ap)) of
        Inl e \<Rightarrow> Inl e
      | Inr ri \<Rightarrow>
      (case py_increment (damages st) (get_metric_index (ap_damage ap)) of
        Inl e \<Rightarrow> Inl e
      | Inr dg \<Rightarrow>
      (case increment_at (lengths st) (length_index (ap_length ap)) of
        Inl e \<Rightarrow> Inl e
      | Inr le \<Rightarrow>
          Inr (st\<lparr> likelihoods := li, impacts := im, scores := sc, risks := ri,
                    damages := dg, lengths := le \<rparr>)))))))"

fun update_loop :: "AttackPathStatistics \<Rightarrow> AttackPath list \<Rightarrow> py_error + AttackPathStatistics" where
  "update_loop st [] = Inr st"
| "update_loop st (ap # new_paths) =
     (case update_one st ap of
        Inl e \<Rightarrow> Inl e
      | Inr st' \<Rightarrow> update_loop st' new_paths)"

text \<open>\<open>AttackPathStatistics.update(new_paths)\<close>.\<close>

definition AttackPathStatistics_update ::
  "AttackPathStatistics \<Rightarrow> AttackPath list \<Rightarrow> py_error + AttackPathStatistics"
where
  "AttackPathStatistics_update st new_paths =
     update_loop (st\<lparr> num_paths := num_paths st + length new_paths \<rparr>) new_paths"



text \<open>
  For comparison, the count of lengths in \<open>PathGenerator.update_stability\<close>
  (generation.py, \<open>LENGTH_BINS = 40\<close>): one path of length \<open>le\<close> on the array \<open>count_len\<close>.
\<close>

definition LENGTH_BINS :: nat where
  "LENGTH_BINS = 40"

definition count_length :: "nat list \<Rightarrow> nat \<Rightarrow> py_error + nat list" where
  "count_length count_len le =
     (if le > LENGTH_BINS then increment_at count_len (LENGTH_BINS - 1)
      else if le \<ge> 1 then increment_at count_len (le - 1)
      else Inr count_len)"

section \<open>joint.py: the histogram of lengths\<close>

text \<open>\<open>xs[i] = v\<close> on a Python list: a negative index counts from the end.\<close>

definition py_setitem :: "'a list \<Rightarrow> int \<Rightarrow> 'a \<Rightarrow> py_error + 'a list" where
  "py_setitem xs i v =
     (if 0 \<le> i \<and> i < int (length xs) then Inr (xs[nat i := v])
      else if i < 0 \<and> - int (length xs) \<le> i then Inr (xs[nat (int (length xs) + i) := v])
      else Inl IndexError)"

text \<open>
  The branch of \<open>_compute_histograms\<close> for the attribute \<open>length\<close>. \<open>len_counts\<close> is what
  \<open>attr_data.value_counts().items()\<close> yields: each distinct length of the query result
  with the number of its rows, in the order pandas gives them.
\<close>

fun length_histogram_loop :: "int list \<Rightarrow> (int \<times> int) list \<Rightarrow> py_error + int list" where
  "length_histogram_loop histogram [] = Inr histogram"
| "length_histogram_loop histogram ((le, count) # rest) =
     (case (if le \<ge> int MAX_LENGTH then py_setitem histogram (int MAX_LENGTH - 1) count
            else py_setitem histogram le count) of
        Inl e \<Rightarrow> Inl e
      | Inr histogram' \<Rightarrow> length_histogram_loop histogram' rest)"

definition length_histogram :: "(int \<times> int) list \<Rightarrow> py_error + int list" where
  "length_histogram len_counts = length_histogram_loop (replicate MAX_LENGTH 0) len_counts"

section \<open>generation.py: PathGenerator\<close>

text \<open>
  The state of a generator: the attributes that \<open>sample_attack_paths\<close> and \<open>step\<close> read
  and write. The path sampler is represented by what it returns (an argument of the
  step); the database, the CSV file and the wall-clock times are not modelled; the
  arrays of \<open>update_stability\<close> hold floating-point CDFs and are another part of the
  object that the functions below do not read.
\<close>

record PathGenerator =
  model_g :: AttackGraphModel
  sample_size :: nat
  iteration :: nat
  unique_hashes :: "string set"
  collision :: "real list"
  generated :: "nat list"
  statistics :: "AttackPathStatistics option"

text \<open>\<open>PathGenerator.__init__\<close>.\<close>

definition PathGenerator_init :: "AttackGraphModel \<Rightarrow> nat \<Rightarrow> bool \<Rightarrow> PathGenerator" where
  "PathGenerator_init m n_samples compute_statistics =
     \<lparr> model_g = m, sample_size = n_samples, iteration = 0, unique_hashes = {},
       collision = [], generated = [],
       statistics = (if compute_statistics then Some AttackPathStatistics_init else None) \<rparr>"

text \<open>
  The loop of \<open>sample_attack_paths\<close> over the paths that \<open>sample_reachability_paths\<close>
  yields. The loop state is \<open>(unique_hashes, attack_paths, sampled_aps, collisions)\<close>;
  \<open>rnd i\<close> holds the draws of the builder for the \<open>i\<close>-th path from here.
\<close>

fun sample_loop ::
  "(string \<Rightarrow> string) \<Rightarrow> AttackGraphModel \<Rightarrow> nat \<Rightarrow> string set option \<Rightarrow> Edge list list
     \<Rightarrow> (nat \<Rightarrow> nat \<Rightarrow> nat) \<Rightarrow> string set \<times> AttackPath list \<times> nat \<times> nat
     \<Rightarrow> py_error + (string set \<times> AttackPath list \<times> nat \<times> nat)"
where
  "sample_loop sha m limit preferred_cves [] rnd st = Inr st"
| "sample_loop sha m limit preferred_cves (path # rest) rnd
       (hashes, attack_paths, sampled_aps, collisions) =
     (if sampled_aps = limit then Inr (hashes, attack_paths, sampled_aps, collisions)
      else if path = [] then
        sample_loop sha m limit preferred_cves rest (\<lambda>i. rnd (Suc i))
          (hashes, attack_paths, sampled_aps, collisions)
      else
        (case convert_reachability_to_ap sha m path preferred_cves (rnd 0) of
           Inl e \<Rightarrow> Inl e
         | Inr None \<Rightarrow>
             sample_loop sha m limit preferred_cves rest (\<lambda>i. rnd (Suc i))
               (hashes, attack_paths, sampled_aps, collisions)
         | Inr (Some ap) \<Rightarrow>
             if ap_hash ap \<in> hashes then
               sample_loop sha m limit preferred_cves rest (\<lambda>i. rnd (Suc i))
                 (hashes, attack_paths, sampled_aps + 1, collisions + 1)
             else
               sample_loop sha m limit preferred_cves rest (\<lambda>i. rnd (Suc i))
                 (insert (ap_hash ap) hashes, attack_paths @ [ap], sampled_aps + 1, collisions)))"

text \<open>
  \<open>PathGenerator.sample_attack_paths(preferred_cves)\<close>. \<open>sampled\<close> lists what
  \<open>self.path_sampler.sample_path()\<close> returns at its successive calls;
  \<open>sample_reachability_paths\<close> makes \<open>sample_size\<close> calls and yields the non-empty results.
\<close>

definition sample_attack_paths ::
  "(string \<Rightarrow> string) \<Rightarrow> 'a PathGenerator_scheme \<Rightarrow> string set option \<Rightarrow> Edge list list
     \<Rightarrow> (nat \<Rightarrow> nat \<Rightarrow> nat) \<Rightarrow> py_error + ('a PathGenerator_scheme \<times> AttackPath list)"
where
  "sample_attack_paths sha g preferred_cves sampled rnd =
     (case sample_loop sha (model_g g) (sample_size g) preferred_cves
             (filter (\<lambda>path. path \<noteq> []) (take (sample_size g) sampled)) rnd
             (unique_hashes g, [], 0, 0) of
        Inl e \<Rightarrow> Inl e
      | Inr (hashes, attack_paths, sampled_aps, collisions) \<Rightarrow>
          Inr (g\<lparr> unique_hashes := hashes,
                  generated := generated g @ [sampled_aps - collisions],
                  collision := collision g @
                    [if sampled_aps > 0 then real collisions / real sampled_aps else 0] \<rparr>,
               attack_paths))"

text \<open>\<open>if self.statistics is not None: self.statistics.update(paths)\<close>.\<close>

definition update_statistics ::
  "AttackPathStatistics option \<Rightarrow> AttackPath list \<Rightarrow> py_error + AttackPathStatistics option"
where
  "update_statistics stats paths =
     (case stats of
        None \<Rightarrow> Inr None
      | Some st \<Rightarrow> map_sum id Some (AttackPathStatistics_update st paths))"

text \<open>\<open>PathGenerator.step()\<close>.\<close>

definition PathGenerator_step ::
  "(string \<Rightarrow> string) \<Rightarrow> PathGenerator \<Rightarrow> Edge list list \<Rightarrow> (nat \<Rightarrow> nat \<Rightarrow> nat)
     \<Rightarrow> py_error + (PathGenerator \<times> AttackPath list)"
where
  "PathGenerator_step sha g sampled rnd =
     (case sample_attack_paths sha g None sampled rnd of
        Inl e \<Rightarrow> Inl e
      | Inr (g1, attack_paths) \<Rightarrow>
          (case update_statistics (statistics g1) attack_paths of
             Inl e \<Rightarrow> Inl e
           | Inr stats \<Rightarrow>
               Inr (g1\<lparr> statistics := stats, iteration := iteration g1 + 1 \<rparr>, attack_paths)))"

section \<open>steering.py\<close>

record AttackPathQuery =
  likelihood_range :: "(real \<times> real) option"
  impact_range :: "(real \<times> real) option"
  score_range :: "(real \<times> real) option"
  risk_range :: "(real \<times> real) option"
  length_range :: "(int \<times> int) option"
  sources :: "int list option"
  targets :: "int list option"

definition in_range :: "('a::linorder \<times> 'a) option \<Rightarrow> 'a \<Rightarrow> bool" where
  "in_range rng x = (case rng of None \<Rightarrow> True | Some (a, b) \<Rightarrow> a \<le> x \<and> x \<le> b)"

text \<open>\<open>AttackPathQuery.check_bounds(attack_path)\<close>.\<close>

definition check_bounds :: "AttackPathQuery \<Rightarrow> AttackPath \<Rightarrow> bool" where
  "check_bounds q attack_path =
     (if \<not> in_range (likelihood_range q) (ap_likelihood attack_path) then False
      else if \<not> in_range (impact_range q) (ap_impact attack_path) then False
      else if \<not> in_range (score_range q) (ap_score attack_path) then False
      else if \<not> in_range (risk_range q) (ap_risk attack_path) then False
      else if \<not> in_range (length_range q) (int (ap_length attack_path)) then False
      else True)"

record SteeringPathGenerator = PathGenerator +
  query :: AttackPathQuery
  disable_steering :: bool
  min_dataset_size :: int
  max_dataset_size :: int
  query_aps :: "AttackPath list"
  nonquery_aps :: "AttackPath list"
  query_hashes :: "string set"
  query_generated :: "nat list"
  precision :: "real list"
  steering :: "bool list"
  steering_compliant_vulns :: "string set"

text \<open>\<open>SteeringPathGenerator.__init__\<close> (the sampler it selects is outside the record).\<close>

definition SteeringPathGenerator_init ::
  "AttackGraphModel \<Rightarrow> AttackPathQuery \<Rightarrow> int \<Rightarrow> int \<Rightarrow> nat \<Rightarrow> bool \<Rightarrow> bool
     \<Rightarrow> SteeringPathGenerator"
where
  "SteeringPathGenerator_init m q min_training_size max_training_size n_samples
       compute_statistics no_steering =
     PathGenerator.extend (PathGenerator_init m n_samples compute_statistics)
       (SteeringPathGenerator.fields q no_steering min_training_size max_training_size
          [] [] {} [] [] [] {})"

text \<open>The slice \<open>xs[i:]\<close> of a Python list.\<close>

definition py_slice_from :: "int \<Rightarrow> 'a list \<Rightarrow> 'a list" where
  "py_slice_from i xs =
     (if i < 0 then drop (nat (int (length xs) + i)) xs else drop (nat i) xs)"

text \<open>\<open>SteeringPathGenerator._can_steer()\<close>.\<close>

definition can_steer :: "SteeringPathGenerator \<Rightarrow> bool" where
  "can_steer g =
     (if disable_steering g then False
      else int (length (query_aps g)) \<ge> min_dataset_size g \<and>
           int (length (nonquery_aps g)) \<ge> min_dataset_size g)"

text \<open>\<open>SteeringPathGenerator.update_paths(new_paths)\<close>: the split by the query's bounds,
  the new precision value and the two training buffers, trimmed.\<close>

definition update_paths ::
  "SteeringPathGenerator \<Rightarrow> AttackPath list
     \<Rightarrow> SteeringPathGenerator \<times> AttackPath list \<times> AttackPath list"
where
  "update_paths g new_paths =
     (let q_aps = filter (check_bounds (query g)) new_paths;
          n_aps = filter (\<lambda>path. \<not> check_bounds (query g) path) new_paths;
          total = length q_aps + length n_aps;
          p = (if total = 0 then 0 else real (length q_aps) / real total);
          all_q = query_aps g @ q_aps;
          all_n = nonquery_aps g @ n_aps;
          max_size = max_dataset_size g
      in (g\<lparr> precision := precision g @ [p],
              query_aps := (if int (length all_q) > max_size then py_slice_from (- max_size) all_q
                            else all_q),
              nonquery_aps := (if int (length all_n) > max_size then py_slice_from (- max_size) all_n
                               else all_n) \<rparr>,
          q_aps, n_aps))"

text \<open>\<open>SteeringPathGenerator._advance_iteration(attack_paths)\<close>.\<close>

definition advance_iteration ::
  "SteeringPathGenerator \<Rightarrow> AttackPath list
     \<Rightarrow> py_error + (SteeringPathGenerator \<times> AttackPath list \<times> AttackPath list)"
where
  "advance_iteration g attack_paths =
     (case update_paths g attack_paths of
        (g1, q_aps, n_aps) \<Rightarrow>
          (case update_statistics (statistics g1) q_aps of
             Inl e \<Rightarrow> Inl e
           | Inr stats \<Rightarrow>
               Inr (g1\<lparr> statistics := stats,
                        query_hashes := query_hashes g1 \<union> set (map ap_hash q_aps),
                        query_generated := query_generated g1 @ [length q_aps] \<rparr>,
                    q_aps, n_aps)))"

text \<open>
  The test of \<open>step\<close> that decides whether the steering-compliant vulnerabilities are
  recomputed: \<open>avg <= self.precision[-1]\<close> with \<open>avg = sum(self.precision[-5:]) / 5.0\<close>.
\<close>

definition update_steering_vulns :: "SteeringPathGenerator \<Rightarrow> py_error + bool" where
  "update_steering_vulns g =
     (let last_five = py_slice_from (- 5) (precision g);
          avg = sum_list last_five / 5
      in if precision g = [] then Inl IndexError else Inr (avg \<le> last (precision g)))"

text \<open>
  The mean that the specification names for the retraining test: the arithmetic mean of
  the last up-to-five precision values, over however many of them there are. (This
  definition follows the specification's words, not the source.)
\<close>

definition mean_of_last_five :: "real list \<Rightarrow> real" where
  "mean_of_last_five ps =
     (let last_five = py_slice_from (- 5) ps in sum_list last_five / real (length last_five))"

text \<open>\<open>np.median\<close> of a list that is not empty.\<close>

definition np_median :: "real list \<Rightarrow> real" where
  "np_median xs =
     (let data = sort xs; n = length data
      in if n mod 2 = 1 then data ! (n div 2)
         else (data ! (n div 2 - 1) + data ! (n div 2)) / 2)"

text \<open>
  \<open>SteeringBaseFeatures.median(features)\<close>: the median of each feature, the three scores
  as floats and the seven categories through \<open>int\<close>. Of an empty list \<open>np.median\<close> is nan,
  and \<open>int\<close> of it raises ValueError.
\<close>

definition int_median :: "int list \<Rightarrow> int" where
  "int_median xs = py_trunc (np_median (map real_of_int xs))"

definition SteeringBaseFeatures_median ::
  "SteeringBaseFeatures list \<Rightarrow> py_error + SteeringBaseFeatures"
where
  "SteeringBaseFeatures_median features =
     (if features = [] then Inl ValueError
      else Inr \<lparr> base_score = np_median (map base_score features),
                 impact_score = np_median (map impact_score features),
                 exploitability_score = np_median (map exploitability_score features),
                 access_vector = int_median (map access_vector features),
                 access_complexity = int_median (map access_complexity features),
                 authentication = int_median (map authentication features),
                 confidentiality_impact = int_median (map confidentiality_impact features),
                 integrity_impact = int_median (map integrity_impact features),
                 availability_impact = int_median (map availability_impact features),
                 base_severity = int_median (map base_severity features) \<rparr>)"

text \<open>\<open>AttackPath.to_features_vector()\<close>.\<close>

definition to_features_vector :: "AttackPath \<Rightarrow> py_error + SteeringBaseFeatures" where
  "to_features_vector ap = SteeringBaseFeatures_median (map base_features (ap_vulns ap))"

text \<open>\<open>[ap.to_features_vector().to_dict() for ap in aps]\<close>.\<close>

fun features_of :: "AttackPath list \<Rightarrow> py_error + SteeringBaseFeatures list" where
  "features_of [] = Inr []"
| "features_of (ap # aps) =
     (case to_features_vector ap of
        Inl e \<Rightarrow> Inl e
      | Inr f \<Rightarrow> (case features_of aps of Inl e \<Rightarrow> Inl e | Inr fs \<Rightarrow> Inr (f # fs)))"

text \<open>
  The decision tree of scikit-learn is a parameter of the model: \<open>fit training\<close> stands
  for \<open>DecisionTreeClassifier(class_weight="balanced").fit(X, Y)\<close> on the rows of
  \<open>training\<close> (the ten features of a row are \<open>X\<close>, its label is \<open>Y\<close>), and \<open>fit training f\<close>
  for what the fitted tree predicts on the one-row frame of the features \<open>f\<close>.
\<close>

type_synonym classifier = "(SteeringBaseFeatures \<times> bool) list \<Rightarrow> SteeringBaseFeatures \<Rightarrow> bool"

text \<open>The loop over \<open>self.model.vulnerabilties.items()\<close>: the CVEs of the pool whose base
  features the tree predicts to be compliant.\<close>

definition predict_pool ::
  "(SteeringBaseFeatures \<Rightarrow> bool) \<Rightarrow> (string \<rightharpoonup> Vulnerability) \<Rightarrow> string set"
where
  "predict_pool dtree pool =
     {cve. case pool cve of None \<Rightarrow> False | Some vuln \<Rightarrow> dtree (base_features vuln)}"

text \<open>
  \<open>SteeringPathGenerator.update_steering_compliant_vulns()\<close>. With no row at all the data
  frame has no column \<open>query\<close> and dropping it raises KeyError.
\<close>

definition update_steering_compliant_vulns ::
  "classifier \<Rightarrow> SteeringPathGenerator \<Rightarrow> py_error + SteeringPathGenerator"
where
  "update_steering_compliant_vulns fit g =
     (case features_of (query_aps g) of
        Inl e \<Rightarrow> Inl e
      | Inr q_features \<Rightarrow>
          (case features_of (nonquery_aps g) of
             Inl e \<Rightarrow> Inl e
           | Inr n_features \<Rightarrow>
               let training = map (\<lambda>qf. (qf, True)) q_features @
                              map (\<lambda>nf. (nf, False)) n_features
               in if training = [] then Inl KeyError
                  else Inr (g\<lparr> steering_compliant_vulns :=
                                  predict_pool (fit training) (vulnerabilties (model_g g)) \<rparr>)))"

text \<open>\<open>SteeringPathGenerator.step()\<close>.\<close>

definition finish_step ::
  "bool \<Rightarrow> SteeringPathGenerator \<Rightarrow> AttackPath list
     \<Rightarrow> py_error + (SteeringPathGenerator \<times> AttackPath list \<times> AttackPath list)"
where
  "finish_step steered g attack_paths =
     (case advance_iteration g attack_paths of
        Inl e \<Rightarrow> Inl e
      | Inr (g1, result) \<Rightarrow>
          Inr (g1\<lparr> steering := steering g1 @ [steered], iteration := iteration g1 + 1 \<rparr>, result))"

definition SteeringPathGenerator_step ::
  "classifier \<Rightarrow> (string \<Rightarrow> string)
     \<Rightarrow> SteeringPathGenerator \<Rightarrow> Edge list list \<Rightarrow> (nat \<Rightarrow> nat \<Rightarrow> nat)
     \<Rightarrow> py_error + (SteeringPathGenerator \<times> AttackPath list \<times> AttackPath list)"
where
  "SteeringPathGenerator_step fit sha g sampled rnd =
     (if can_steer g then
        (case update_steering_vulns g of
           Inl e \<Rightarrow> Inl e
         | Inr update \<Rightarrow>
             (case (if update \<or> steering_compliant_vulns g = {}
                    then update_steering_compliant_vulns fit g else Inr g) of
                Inl e \<Rightarrow> Inl e
              | Inr g1 \<Rightarrow>
                  (case sample_attack_paths sha g1 (Some (steering_compliant_vulns g1))
                          sampled rnd of
                     Inl e \<Rightarrow> Inl e
                   | Inr (g2, attack_paths) \<Rightarrow> finish_step True g2 attack_paths)))
      else
        (case sample_attack_paths sha g None sampled rnd of
           Inl e \<Rightarrow> Inl e
         | Inr (g2, attack_paths) \<Rightarrow> finish_step False g2 attack_paths))"

text \<open>\<open>[AttackPath.from_trace(p, self.model) for p in paths]\<close>.\<close>

fun from_traces ::
  "(string \<Rightarrow> string) \<Rightarrow> AttackGraphModel \<Rightarrow> string list \<Rightarrow> py_error + AttackPath list"
where
  "from_traces sha m [] = Inr []"
| "from_traces sha m (p # paths) =
     (case from_trace sha p m of
        Inl e \<Rightarrow> Inl e
      | Inr ap \<Rightarrow> (case from_traces sha m paths of Inl e \<Rightarrow> Inl e | Inr aps \<Rightarrow> Inr (ap # aps)))"

text \<open>\<open>SteeringPathGenerator.add_bootstrap(paths)\<close> (its update of the sampler's weights
  is outside the record).\<close>

definition add_bootstrap ::
  "(string \<Rightarrow> string) \<Rightarrow> SteeringPathGenerator \<Rightarrow> string list
     \<Rightarrow> py_error + (SteeringPathGenerator \<times> AttackPath list \<times> AttackPath list)"
where
  "add_bootstrap sha g paths =
     (case from_traces sha (model_g g) paths of
        Inl e \<Rightarrow> Inl e
      | Inr attack_paths \<Rightarrow>
          finish_step False
            (g\<lparr> generated := generated g @ [length attack_paths],
                collision := collision g @ [0],
                unique_hashes := unique_hashes g \<union> set (map ap_hash attack_paths) \<rparr>)
            attack_paths)"

text \<open>A sequence of calls on a generator: each call with what the environment supplies
  to it (the sampler's results and the draws of a step, the traces of a bootstrap). The
  sequence stops at the first call that raises.\<close>

fun run_steps ::
  "(string \<Rightarrow> string) \<Rightarrow> PathGenerator \<Rightarrow> (Edge list list \<times> (nat \<Rightarrow> nat \<Rightarrow> nat)) list
     \<Rightarrow> py_error + PathGenerator"
where
  "run_steps sha g [] = Inr g"
| "run_steps sha g ((sampled, rnd) # calls) =
     (case PathGenerator_step sha g sampled rnd of
        Inl e \<Rightarrow> Inl e
      | Inr (g', attack_paths) \<Rightarrow> run_steps sha g' calls)"

datatype call = Step "Edge list list" "nat \<Rightarrow> nat \<Rightarrow> nat" | Bootstrap "string list"

fun apply_call ::
  "classifier \<Rightarrow> (string \<Rightarrow> string)
     \<Rightarrow> SteeringPathGenerator \<Rightarrow> call \<Rightarrow> py_error + SteeringPathGenerator"
where
  "apply_call fit sha g (Step sampled rnd) =
     map_sum id fst (SteeringPathGenerator_step fit sha g sampled rnd)"
| "apply_call fit sha g (Bootstrap paths) = map_sum id fst (add_bootstrap sha g paths)"

fun run_calls ::
  "classifier \<Rightarrow> (string \<Rightarrow> string)
     \<Rightarrow> SteeringPathGenerator \<Rightarrow> call list \<Rightarrow> py_error + SteeringPathGenerator"
where
  "run_calls fit sha g [] = Inr g"
| "run_calls fit sha g (c # calls) =
     (case apply_call fit sha g c of
        Inl e \<Rightarrow> Inl e
      | Inr g' \<Rightarrow> run_calls fit sha g' calls)"

text \<open>Every bootstrap of the sequence is given traces whose hashes are pairwise distinct
  and not yet among the generator's unique hashes.\<close>

fun fresh_bootstraps ::
  "classifier \<Rightarrow> (string \<Rightarrow> string)
     \<Rightarrow> SteeringPathGenerator \<Rightarrow> call list \<Rightarrow> bool"
where
  "fresh_bootstraps fit sha g [] = True"
| "fresh_bootstraps fit sha g (c # calls) =
     ((case c of
         Bootstrap paths \<Rightarrow>
           distinct (map sha paths) \<and> set (map sha paths) \<inter> unique_hashes g = {}
       | Step sampled rnd \<Rightarrow> True) \<and>
      (case apply_call fit sha g c of
         Inl e \<Rightarrow> True
       | Inr g' \<Rightarrow> fresh_bootstraps fit sha g' calls))"

section \<open>A small network for the examples\<close>

text \<open>
  Four hosts in a line, 1 \<rightarrow> 2 \<rightarrow> 3 \<rightarrow> 4. Host 1 has no CVE. CVE-A is a CVSS v2
  record without authentication that yields user privilege; CVE-B is a record with no
  CVSS metric, or a v3 record that requires no privilege and leaves the scope unchanged
  (both privileges are guest); CVE-U is a v2 record that needs a
  single authentication and yields all privileges.
\<close>

definition ex_vuln :: "string \<Rightarrow> Privilege \<Rightarrow> Privilege \<Rightarrow> Vulnerability" where
  "ex_vuln c req gain =
     \<lparr> cve_id = c, base_features = default_features, priv_required = req, priv_gained = gain \<rparr>"

definition ex_host :: "int \<Rightarrow> string list \<Rightarrow> NetworkHost" where
  "ex_host i cs = \<lparr> host_id = i, hostname = ''h'', ipv4 = ''10.0.0.1'', cves = cs \<rparr>"

definition ex_model :: AttackGraphModel where
  "ex_model =
     \<lparr> hosts = [1 \<mapsto> ex_host 1 [], 2 \<mapsto> ex_host 2 [''CVE-A''], 3 \<mapsto> ex_host 3 [''CVE-B''],
                 4 \<mapsto> ex_host 4 [''CVE-U'']],
       vulnerabilties = [''CVE-A'' \<mapsto> ex_vuln ''CVE-A'' PRIV_GUEST PRIV_USER,
                         ''CVE-B'' \<mapsto> ex_vuln ''CVE-B'' PRIV_GUEST PRIV_GUEST,
                         ''CVE-U'' \<mapsto> ex_vuln ''CVE-U'' PRIV_USER PRIV_ROOT],
       graph_edges = [(1, 2), (2, 3), (3, 4)] \<rparr>"

text \<open>The sampler of the line network, as its constructor leaves it (every edge at
  weight 4), and a star whose centre 1 is linked both ways to 2 and to 3.\<close>

definition ex_sampler :: PathSampler where
  "ex_sampler =
     \<lparr> model = ex_model, min_length = 1, max_length = 3, valid_hosts = [1, 2, 3, 4],
       use_dynamic_weights = True,
       edge_weights = (\<lambda>e. if e \<in> set (graph_edges ex_model) then Some 4 else None) \<rparr>"

definition ex_star :: AttackGraphModel where
  "ex_star =
     \<lparr> hosts = [1 \<mapsto> ex_host 1 [], 2 \<mapsto> ex_host 2 [], 3 \<mapsto> ex_host 3 []],
       vulnerabilties = Map.empty,
       graph_edges = [(1, 2), (2, 1), (1, 3), (3, 1)] \<rparr>"

definition ex_star_sampler :: PathSampler where
  "ex_star_sampler =
     \<lparr> model = ex_star, min_length = 1, max_length = 3, valid_hosts = [1, 2, 3],
       use_dynamic_weights = True,
       edge_weights = (\<lambda>e. if e \<in> set (graph_edges ex_star) then Some 4 else None) \<rparr>"

text \<open>The attack path the builder makes of the one-edge walk 1 \<rightarrow> 2 (with the identity
  in the place of the digest), and a query that asks for paths of length 1.\<close>

definition ex_ap1 :: AttackPath where
  "ex_ap1 = \<lparr> ap_trace = ''user@1#CVE-A#user@2'', ap_length = 1, ap_likelihood = 5,
      ap_impact = 5, ap_score = 5, ap_risk = 5 / 2, ap_damage = 5,
      ap_hash = ''user@1#CVE-A#user@2'',
      ap_vulns = [ex_vuln ''CVE-A'' PRIV_GUEST PRIV_USER], ap_edges = [(1, 2)] \<rparr>"

definition ex_query :: AttackPathQuery where
  "ex_query = \<lparr> likelihood_range = None, impact_range = None, score_range = None,
       risk_range = None, length_range = Some (1, 1), sources = None, targets = None \<rparr>"

text \<open>
  A second network for the steering generator. Three CVEs that need and give guest
  privilege and differ in one feature only, the exploitability score: 8 for CVE-H, 6 for
  CVE-M, 2 for CVE-L. Host 1 has no CVE and an edge to each of the hosts 2 to 6; the
  hosts 2, 3 and 5 carry CVE-H, host 4 carries CVE-L and host 6 carries CVE-M. The query
  asks for a likelihood between 7 and 10.
\<close>

definition ex_cve :: "string \<Rightarrow> real \<Rightarrow> Vulnerability" where
  "ex_cve c e =
     \<lparr> cve_id = c, base_features = default_features\<lparr> exploitability_score := e \<rparr>,
       priv_required = PRIV_GUEST, priv_gained = PRIV_GUEST \<rparr>"

definition ex_pool :: "string \<rightharpoonup> Vulnerability" where
  "ex_pool = [''CVE-H'' \<mapsto> ex_cve ''CVE-H'' 8, ''CVE-M'' \<mapsto> ex_cve ''CVE-M'' 6,
              ''CVE-L'' \<mapsto> ex_cve ''CVE-L'' 2]"

definition ex_net :: AttackGraphModel where
  "ex_net =
     \<lparr> hosts = [1 \<mapsto> ex_host 1 [], 2 \<mapsto> ex_host 2 [''CVE-H''], 3 \<mapsto> ex_host 3 [''CVE-H''],
                 4 \<mapsto> ex_host 4 [''CVE-L''], 5 \<mapsto> ex_host 5 [''CVE-H''],
                 6 \<mapsto> ex_host 6 [''CVE-M'']],
       vulnerabilties = ex_pool,
       graph_edges = [(1, 2), (1, 3), (1, 4), (1, 5), (1, 6)] \<rparr>"

definition ex_likely :: AttackPathQuery where
  "ex_likely = \<lparr> likelihood_range = Some (7, 10), impact_range = None, score_range = None,
       risk_range = None, length_range = None, sources = None, targets = None \<rparr>"

text \<open>
  The tree that the classifier fits when the rows of the training set differ in the
  exploitability score only and every compliant row lies above every other row: one
  split, at the midpoint between the lowest compliant score and the highest other score.
  With rows of one label only the tree is a leaf of that label.
\<close>

definition ex_fit :: classifier where
  "ex_fit training f =
     (let pos = map (exploitability_score \<circ> fst) (filter snd training);
          neg = map (exploitability_score \<circ> fst) (filter (\<lambda>row. \<not> snd row) training)
      in if pos = [] then False
         else if neg = [] then True
         else exploitability_score f > (hd (sort pos) + last (sort neg)) / 2)"

text \<open>
  A steering generator on that network with \<open>min_training_size = 1\<close> and
  \<open>sample_size = 2\<close>, and three steps, given by what the sampler returns in each: the
  walk to host 2; the walks to the hosts 3 and 4; the walks to the hosts 5 and 6.
\<close>

definition ex_generator :: SteeringPathGenerator where
  "ex_generator = SteeringPathGenerator_init ex_net ex_likely 1 200 2 True False"

definition ex_steps :: "call list" where
  "ex_steps = [Step [[(1, 2)], []] (\<lambda>i k. 0),
               Step [[(1, 3)], [(1, 4)]] (\<lambda>i k. 0),
               Step [[(1, 5)], [(1, 6)]] (\<lambda>i k. 0)]"

section \<open>Properties\<close>

subsection \<open>Sampling a CVE on a host\<close>

lemma filter_by_priv_Nil_iff:
  "filter_by_priv pool p cs = Inr [] \<longleftrightarrow>
     (\<forall>cve \<in> set cs. case pool cve of None \<Rightarrow> False
         | Some v \<Rightarrow> \<not> priv_int (priv_required v) \<le> priv_int p)"
  by (induction cs) (auto split: option.splits sum.splits)

lemma random_choice_mem: "random_choice r xs = Inr x \<Longrightarrow> x \<in> set xs"
  by (auto simp: random_choice_def split: if_splits)

lemma filter_by_priv_sound:
  "filter_by_priv pool p cs = Inr fs \<Longrightarrow> cve \<in> set fs \<Longrightarrow>
     cve \<in> set cs \<and> (\<exists>v. pool cve = Some v \<and> priv_int (priv_required v) \<le> priv_int p)"
  by (induction cs arbitrary: fs) (auto split: option.splits sum.splits if_splits)

lemma priv_le_root: "priv_int p \<le> priv_int PRIV_ROOT"
  by (cases p) auto

lemma map_sum_Some_iff: "map_sum id Some x = Inr (Some c) \<longleftrightarrow> x = Inr c"
  by (cases x) auto

lemma map_sum_Some_not_None: "map_sum id Some x \<noteq> Inr None"
  by (cases x) auto

lemma sample_None_allowed:
  assumes "sample_cve_on_host m hid p None r = Inr (Some cve)"
    and "vulnerabilties m cve = Some v"
  shows "priv_int (priv_required v) \<le> priv_int p"
proof (cases "p = PRIV_ROOT")
  case True
  then show ?thesis using priv_le_root [of "priv_required v"] by simp
next
  case False
  with assms(1) have "\<exists>cs fs.
     filter_by_priv (vulnerabilties m) p cs = Inr fs \<and> cve \<in> set fs"
    by (auto split: option.splits sum.splits if_splits simp: map_sum_Some_iff)
       (blast dest: random_choice_mem)
  with assms(2) show ?thesis by (auto dest: filter_by_priv_sound)
qed

lemma sample_allowed:
  assumes "sample_cve_on_host m hid p pref r = Inr (Some cve)"
    and "vulnerabilties m cve = Some v"
  shows "priv_int (priv_required v) \<le> priv_int p"
proof (cases pref)
  case None
  with assms(1) have "sample_cve_on_host m hid p None r = Inr (Some cve)" by simp
  then show ?thesis using assms(2) by (rule sample_None_allowed)
next
  case (Some P)
  show ?thesis
  proof (cases "p = PRIV_ROOT")
    case True
    then show ?thesis using priv_le_root [of "priv_required v"] by simp
  next
    case False
    have "sample_cve_on_host m hid p None r = Inr (Some cve) \<or>
          (\<exists>cs fs. filter_by_priv (vulnerabilties m) p cs = Inr fs \<and> cve \<in> set fs)"
    proof (cases "hosts m hid")
      case None
      with assms(1) Some show ?thesis by simp
    next
      case (Some host)
      let ?cs = "filter (\<lambda>c. c \<in> P) (cves host)"
      show ?thesis
      proof (cases "?cs = []")
        case True
        with assms(1) \<open>pref = Some P\<close> Some show ?thesis by (simp del: sample_cve_on_host.simps(1))
      next
        case ne: False
        show ?thesis
        proof (cases "filter_by_priv (vulnerabilties m) p ?cs")
          case (Inl e)
          with assms(1) \<open>pref = Some P\<close> Some ne False show ?thesis by (simp add: Let_def)
        next
          case (Inr fs)
          show ?thesis
          proof (cases "fs = []")
            case True
            with assms(1) \<open>pref = Some P\<close> Some ne False Inr show ?thesis
              by (simp add: Let_def del: sample_cve_on_host.simps(1))
          next
            case fne: False
            with assms(1) \<open>pref = Some P\<close> Some ne False Inr have "random_choice r fs = Inr cve"
              by (simp add: Let_def map_sum_Some_iff)
            then have "cve \<in> set fs" by (rule random_choice_mem)
            with Inr show ?thesis by blast
          qed
        qed
      qed
    qed
    then show ?thesis
    proof
      assume "sample_cve_on_host m hid p None r = Inr (Some cve)"
      then show ?thesis using assms(2) by (rule sample_None_allowed)
    next
      assume "\<exists>cs fs. filter_by_priv (vulnerabilties m) p cs = Inr fs \<and> cve \<in> set fs"
      with assms(2) show ?thesis by (auto dest: filter_by_priv_sound)
    qed
  qed
qed

lemma sample_preferred_barred:
  assumes "\<forall>cve \<in> set (preferred_on_host m hid preferred_cves). barred m current_priv cve"
  shows "sample_cve_on_host m hid current_priv (Some preferred_cves) r =
         sample_cve_on_host m hid current_priv None r"
proof (cases "hosts m hid")
  case None
  then show ?thesis by simp
next
  case (Some host)
  let ?cs = "filter (\<lambda>cve. cve \<in> preferred_cves) (cves host)"
  from Some have cs: "preferred_on_host m hid preferred_cves = ?cs"
    by (simp add: preferred_on_host_def cves_on_host_def)
  show ?thesis
  proof (cases "?cs = []")
    case True
    with Some show ?thesis by simp
  next
    case False
    then obtain c where "c \<in> set ?cs" by (cases ?cs) auto
    with assms cs have "barred m current_priv c" by simp
    then have nr: "current_priv \<noteq> PRIV_ROOT"
      using priv_le_root by (auto simp: barred_def split: option.splits)
    from assms cs have "filter_by_priv (vulnerabilties m) current_priv ?cs = Inr []"
      unfolding filter_by_priv_Nil_iff by (simp add: barred_def)
    with Some False nr show ?thesis by (simp add: Let_def)
  qed
qed

lemma sample_None_result_None:
  assumes "sample_cve_on_host m hid current_priv None r = Inr None"
  shows "\<forall>cve \<in> set (cves_on_host m hid). barred m current_priv cve"
  using assms
  by (auto simp: cves_on_host_def barred_def filter_by_priv_Nil_iff map_sum_Some_not_None
           split: option.splits if_splits sum.splits)

lemma sample_preferred_result_None:
  assumes "sample_cve_on_host m hid current_priv (Some preferred_cves) r = Inr None"
  shows "sample_cve_on_host m hid current_priv None r = Inr None"
  using assms
  by (auto simp: Let_def map_sum_Some_not_None split: option.splits if_splits sum.splits)

text \<open>
  C9. On a host whose list of CVEs is empty, the call without preferred CVEs returns
  \<open>None\<close> when the current privilege is guest or user, and raises IndexError (from
  \<open>random.choice\<close> on the empty list) when it is root.
\<close>

theorem sample_cve_on_host_no_cves:
  assumes "hosts m hid = Some host" and "cves host = []"
  shows "sample_cve_on_host m hid current_priv None r =
           (if current_priv = PRIV_ROOT then Inl IndexError else Inr None)"
  using assms by (simp add: random_choice_def)

theorem sample_cve_on_host_no_cves_witness:
  "hosts ex_model 1 = Some (ex_host 1 []) \<and> cves (ex_host 1 []) = [] \<and>
   sample_cve_on_host ex_model 1 PRIV_ROOT None 0 = Inl IndexError \<and>
   sample_cve_on_host ex_model 1 PRIV_USER None 0 = Inr None \<and>
   sample_cve_on_host ex_model 1 PRIV_GUEST None 0 = Inr None"
proof -
  have h: "hosts ex_model 1 = Some (ex_host 1 [])" by (simp add: ex_model_def)
  have c: "cves (ex_host 1 []) = []" by (simp add: ex_host_def)
  show ?thesis
    using h c sample_cve_on_host_no_cves [OF h c, of PRIV_ROOT 0]
      sample_cve_on_host_no_cves [OF h c, of PRIV_USER 0]
      sample_cve_on_host_no_cves [OF h c, of PRIV_GUEST 0]
    by simp
qed

text \<open>
  C5. With preferred CVEs given: when the preferred CVEs on the host are none, or each of
  them requires more than the current privilege, the call is the call without preferred
  CVEs (same draw); and when the call returns \<open>None\<close>, so does the call without
  preferred CVEs, and every CVE on the host requires more than the current privilege.
\<close>

theorem sample_cve_on_host_preferred_retry:
  "((\<forall>cve \<in> set (preferred_on_host m hid preferred_cves). barred m current_priv cve) \<longrightarrow>
      sample_cve_on_host m hid current_priv (Some preferred_cves) r =
      sample_cve_on_host m hid current_priv None r) \<and>
   (sample_cve_on_host m hid current_priv (Some preferred_cves) r = Inr None \<longrightarrow>
      sample_cve_on_host m hid current_priv None r = Inr None \<and>
      (\<forall>cve \<in> set (cves_on_host m hid). barred m current_priv cve))"
  using sample_preferred_barred sample_preferred_result_None sample_None_result_None
  by blast

text \<open>On host 4 the only CVE needs user privilege: a guest gets \<open>None\<close>, with or without
  the preference. On host 2 a preference for a CVE that is not there changes nothing.\<close>

theorem sample_cve_on_host_preferred_retry_witness:
  "preferred_on_host ex_model 2 {''CVE-U''} = [] \<and>
   sample_cve_on_host ex_model 2 PRIV_GUEST (Some {''CVE-U''}) 0 = Inr (Some ''CVE-A'') \<and>
   sample_cve_on_host ex_model 2 PRIV_GUEST None 0 = Inr (Some ''CVE-A'') \<and>
   preferred_on_host ex_model 4 {''CVE-U''} = [''CVE-U''] \<and>
   cves_on_host ex_model 4 = [''CVE-U''] \<and>
   barred ex_model PRIV_GUEST ''CVE-U'' \<and>
   sample_cve_on_host ex_model 4 PRIV_GUEST (Some {''CVE-U''}) 0 = Inr None \<and>
   sample_cve_on_host ex_model 4 PRIV_GUEST None 0 = Inr None"
  using sample_cve_on_host_preferred_retry [of ex_model 2 "{''CVE-U''}" PRIV_GUEST 0]
    sample_cve_on_host_preferred_retry [of ex_model 4 "{''CVE-U''}" PRIV_GUEST 0]
  by (simp add: ex_model_def ex_host_def ex_vuln_def preferred_on_host_def cves_on_host_def
      barred_def random_choice_def)

subsection \<open>The attack-path builder\<close>

lemma exploit_loop_consistent:
  "exploit_loop m pref p path rnd = Inr (vs, ts) \<Longrightarrow> privilege_consistent p vs"
proof (induction path arbitrary: p rnd vs ts)
  case Nil
  then show ?case by simp
next
  case (Cons e path)
  obtain s t where e: "e = (s, t)" by (cases e)
  show ?case
  proof (cases "sample_cve_on_host m t p pref (rnd 0)")
    case (Inl a)
    with Cons.prems e show ?thesis by simp
  next
    case (Inr oc)
    show ?thesis
    proof (cases oc)
      case None
      with Cons.prems e Inr show ?thesis by simp
    next
      case (Some cve)
      with Cons.prems e Inr obtain v vs' ts' where
        v: "vulnerabilties m cve = Some v" and
        rec: "exploit_loop m pref (priv_gained v) path (\<lambda>k. rnd (Suc k)) = Inr (vs', ts')" and
        vs: "vs = v # vs'"
        by (auto split: option.splits sum.splits simp: Let_def)
      from Inr Some v have "priv_int (priv_required v) \<le> priv_int p"
        by (auto dest: sample_allowed)
      moreover from rec have "privilege_consistent (priv_gained v) vs'" by (rule Cons.IH)
      ultimately show ?thesis using vs by simp
    qed
  qed
qed

lemma exploit_loop_lengths:
  "exploit_loop m pref p path rnd = Inr (vs, ts) \<Longrightarrow>
     length ts = length vs \<and> length vs \<le> length path"
proof (induction path arbitrary: p rnd vs ts)
  case Nil
  then show ?case by simp
next
  case (Cons e path)
  obtain s t where e: "e = (s, t)" by (cases e)
  from Cons.prems e show ?case
    by (auto split: option.splits sum.splits simp: Let_def dest!: Cons.IH)
qed

lemma AttackPath_init_fields:
  assumes "AttackPath_init h trace vulns edges = Inr ap"
  shows "vulns \<noteq> []" and "ap_trace ap = trace" and "ap_vulns ap = vulns"
    and "ap_edges ap = edges"
    and "ap_length ap = length vulns"
    and "ap_likelihood ap = sum_list (map vuln_likelihood vulns) / real (length vulns)"
    and "ap_impact ap = vuln_impact (last vulns)"
    and "statistics_median (map vuln_score vulns) = Inr (ap_score ap)"
    and "ap_damage ap = sum_list (map vuln_impact vulns) / real (length vulns)"
    and "ap_risk ap = ap_likelihood ap * ap_impact ap / 10"
    and "ap_hash ap = h trace"
  using assms
  by (auto simp: AttackPath_init_def statistics_mean_def Let_def split: sum.splits if_splits)

lemma sort_eq_Nil_iff: "sort xs = [] \<longleftrightarrow> xs = []"
  by (metis length_sort length_0_conv)

lemma AttackPath_init_total:
  "vulns \<noteq> [] \<Longrightarrow> \<exists>ap. AttackPath_init h trace vulns edges = Inr ap"
  by (auto simp: AttackPath_init_def statistics_mean_def statistics_median_def Let_def sort_eq_Nil_iff split: sum.splits if_splits)

lemma split_acc_not_Nil: "split_acc sep cur s \<noteq> []"
  by (induction sep cur s rule: split_acc.induct) auto

lemma parse_steps_lengths:
  "parse_steps m steps = Inr (es, vs) \<Longrightarrow> length es = length steps \<and> length vs = length steps"
proof (induction steps arbitrary: es vs)
  case Nil
  then show ?case by simp
next
  case (Cons a steps)
  from Cons.prems show ?case
    by (auto split: list.splits option.splits sum.splits dest!: Cons.IH)
qed

lemma convert_shape:
  assumes "convert_reachability_to_ap h m path pref rnd = Inr (Some ap)"
  shows "\<exists>vs ts. exploit_loop m pref PRIV_GUEST path rnd = Inr (vs, ts) \<and> vs \<noteq> [] \<and>
           AttackPath_init h (join ''##'' ts) vs (take (length vs) path) = Inr ap"
  using assms
  by (auto simp: convert_reachability_to_ap_def Let_def map_sum_def split: sum.splits if_splits)

lemma privilege_consistent_nth:
  "privilege_consistent p vs \<longleftrightarrow>
     (\<forall>i < length vs. priv_int (priv_required (vs ! i)) \<le> priv_int ((p # map priv_gained vs) ! i))"
proof (induction vs arbitrary: p)
  case Nil
  then show ?case by simp
next
  case (Cons v vs)
  show ?case
    by (simp add: Cons.IH All_less_Suc2)
qed

text \<open>The privileges of the example vulnerabilities are those the loader computes.\<close>

lemma example_privileges:
  "get_privileges (Some (''NONE'', False, True)) None = Inr (PRIV_GUEST, PRIV_USER)"
  "get_privileges None None = Inr (PRIV_GUEST, PRIV_GUEST)"
  "get_privileges None (Some (''NONE'', ''UNCHANGED'')) = Inr (PRIV_GUEST, PRIV_GUEST)"
  "get_privileges (Some (''SINGLE'', True, False)) None = Inr (PRIV_USER, PRIV_ROOT)"
  by (simp_all add: RPSTR2PRIV_def)

lemma example_path_built:
  "\<exists>ap. convert_reachability_to_ap (\<lambda>t. t) ex_model [(1, 2), (2, 3)] None (\<lambda>k. 0)
         = Inr (Some ap)"
  by (simp add: convert_reachability_to_ap_def ex_model_def ex_host_def ex_vuln_def
      random_choice_def AttackPath_init_def statistics_mean_def statistics_median_def Let_def)

text \<open>
  C1, as stated: on the walk 1 \<rightarrow> 2 \<rightarrow> 3 the builder exploits CVE-A (guest to user) and
  then CVE-B (guest to guest): the privileges held are guest, user, guest, which is not
  non-decreasing.
\<close>

theorem privilege_sequence_not_monotone:
  "map_sum id (map_option privilege_sequence)
     (convert_reachability_to_ap (\<lambda>t. t) ex_model [(1, 2), (2, 3)] None (\<lambda>k. 0))
   = Inr (Some [PRIV_GUEST, PRIV_USER, PRIV_GUEST]) \<and>
   \<not> sorted (map priv_int [PRIV_GUEST, PRIV_USER, PRIV_GUEST])"
  by (simp add: convert_reachability_to_ap_def ex_model_def ex_host_def ex_vuln_def
      random_choice_def AttackPath_init_def statistics_mean_def statistics_median_def
      privilege_sequence_def Let_def)

text \<open>
  C1, amended. For every attack path the builder returns, the privilege sequence starts at
  guest and continues with the privilege gained by each exploited vulnerability, and each
  exploited vulnerability requires at most the privilege held before it.
\<close>

theorem builder_privilege_consistent:
  assumes "convert_reachability_to_ap h m path preferred_cves rnd = Inr (Some ap)"
  shows "privilege_sequence ap = PRIV_GUEST # map priv_gained (ap_vulns ap) \<and>
         (\<forall>i < length (ap_vulns ap).
            priv_int (priv_required (ap_vulns ap ! i)) \<le> priv_int (privilege_sequence ap ! i))"
proof -
  from assms obtain vs ts where
    loop: "exploit_loop m preferred_cves PRIV_GUEST path rnd = Inr (vs, ts)" and
    init: "AttackPath_init h (join ''##'' ts) vs (take (length vs) path) = Inr ap"
    by (blast dest: convert_shape)
  from init have "ap_vulns ap = vs" by (rule AttackPath_init_fields)
  moreover from loop have "privilege_consistent PRIV_GUEST vs"
    by (rule exploit_loop_consistent)
  ultimately show ?thesis
    by (simp add: privilege_sequence_def privilege_consistent_nth)
qed

theorem builder_privilege_consistent_witness:
  "\<exists>ap. convert_reachability_to_ap (\<lambda>t. t) ex_model [(1, 2), (2, 3)] None (\<lambda>k. 0)
           = Inr (Some ap) \<and>
         privilege_sequence ap = PRIV_GUEST # map priv_gained (ap_vulns ap) \<and>
         (\<forall>i < length (ap_vulns ap).
            priv_int (priv_required (ap_vulns ap ! i)) \<le> priv_int (privilege_sequence ap ! i))"
proof -
  from example_path_built obtain ap where
    ap: "convert_reachability_to_ap (\<lambda>t. t) ex_model [(1, 2), (2, 3)] None (\<lambda>k. 0)
           = Inr (Some ap)" ..
  from builder_privilege_consistent [OF ap] ap show ?thesis by blast
qed

lemma AttackPath_init_score:
  assumes "AttackPath_init h trace vulns edges = Inr ap"
  shows "ap_score ap =
           (if odd (length vulns) then sort (map vuln_score vulns) ! (length vulns div 2)
            else (sort (map vuln_score vulns) ! (length vulns div 2 - 1) +
                  sort (map vuln_score vulns) ! (length vulns div 2)) / 2)"
proof -
  from assms have "statistics_median (map vuln_score vulns) = Inr (ap_score ap)"
    and "vulns \<noteq> []" by (rule AttackPath_init_fields)+
  then show ?thesis
    by (auto simp: statistics_median_def Let_def odd_iff_mod_2_eq_one split: if_splits)
qed

lemma example_from_trace: "from_trace (\<lambda>t. t) ''user@1#CVE-A#user@2'' ex_model = Inr ex_ap1"
  by (simp add: from_trace_def split_def host_of_field_def py_int_def strip_def is_space_def
      digit_val_def ex_model_def ex_vuln_def AttackPath_init_def statistics_mean_def
      statistics_median_def ex_ap1_def vuln_likelihood_def vuln_impact_def vuln_score_def
      default_features_def)


text \<open>
  C3, as stated: the constructor does not compare its two lists. Given one vulnerability
  and no edge it returns a path of length 1 with one vulnerability and no edge.
\<close>

theorem attack_path_without_edges:
  "map_sum id (\<lambda>ap. (ap_length ap, length (ap_vulns ap), length (ap_edges ap)))
     (AttackPath_init (\<lambda>t. t) ''guest@1#CVE-A#user@2'' [ex_vuln ''CVE-A'' PRIV_GUEST PRIV_USER] [])
   = Inr (1, 1, 0)"
  by (simp add: AttackPath_init_def statistics_mean_def statistics_median_def Let_def)

text \<open>
  C3, amended. The constructor, given a non-empty list \<open>vulns\<close>, a list \<open>edges\<close> and a
  trace, returns a path that holds these three arguments, with \<open>length = len(vulns) \<ge> 1\<close>,
  the mean of the likelihoods of \<open>vulns\<close> as likelihood, the impact of the last of them as
  impact, the median of their scores as score (the middle one of the sorted scores, or
  the mean of the two middle ones), the mean of their impacts as damage,
  \<open>likelihood * impact / 10\<close> as risk and the digest of the trace as hash; it has as many
  edges as vulnerabilities when the two arguments have the same length. That is so for
  every path of the builder, whose edges are the first \<open>length\<close> edges of the walk, and
  for every path of \<open>from_trace\<close>.
\<close>

theorem attack_path_invariants:
  "(vulns \<noteq> [] \<longrightarrow>
      (\<exists>ap. AttackPath_init h trace vulns edges = Inr ap \<and>
            ap_trace ap = trace \<and> ap_vulns ap = vulns \<and> ap_edges ap = edges \<and>
            ap_length ap = length vulns \<and> 1 \<le> ap_length ap \<and>
            (length (ap_edges ap) = length (ap_vulns ap) \<longleftrightarrow> length edges = length vulns) \<and>
            ap_likelihood ap = sum_list (map vuln_likelihood vulns) / real (length vulns) \<and>
            ap_impact ap = vuln_impact (last vulns) \<and>
            ap_score ap =
              (if odd (length vulns) then sort (map vuln_score vulns) ! (length vulns div 2)
               else (sort (map vuln_score vulns) ! (length vulns div 2 - 1) +
                     sort (map vuln_score vulns) ! (length vulns div 2)) / 2) \<and>
            ap_damage ap = sum_list (map vuln_impact vulns) / real (length vulns) \<and>
            ap_risk ap = ap_likelihood ap * ap_impact ap / 10 \<and>
            ap_hash ap = h trace)) \<and>
   (convert_reachability_to_ap h m path preferred_cves rnd = Inr (Some ap') \<longrightarrow>
      ap_edges ap' = take (ap_length ap') path \<and>
      ap_length ap' = length (ap_vulns ap') \<and>
      length (ap_vulns ap') = length (ap_edges ap') \<and> 1 \<le> ap_length ap') \<and>
   (from_trace h trace' m' = Inr ap'' \<longrightarrow>
      ap_trace ap'' = trace' \<and>
      ap_length ap'' = length (ap_vulns ap'') \<and>
      length (ap_vulns ap'') = length (ap_edges ap'') \<and> 1 \<le> ap_length ap'')"
proof (intro conjI impI)
  assume ne: "vulns \<noteq> []"
  then obtain ap where init: "AttackPath_init h trace vulns edges = Inr ap"
    using AttackPath_init_total by blast
  note f = AttackPath_init_fields [OF init]
  from ne have "1 \<le> length vulns" by (cases vulns) simp_all
  with f AttackPath_init_score [OF init] init
  show "\<exists>ap. AttackPath_init h trace vulns edges = Inr ap \<and>
            ap_trace ap = trace \<and> ap_vulns ap = vulns \<and> ap_edges ap = edges \<and>
            ap_length ap = length vulns \<and> 1 \<le> ap_length ap \<and>
            (length (ap_edges ap) = length (ap_vulns ap) \<longleftrightarrow> length edges = length vulns) \<and>
            ap_likelihood ap = sum_list (map vuln_likelihood vulns) / real (length vulns) \<and>
            ap_impact ap = vuln_impact (last vulns) \<and>
            ap_score ap =
              (if odd (length vulns) then sort (map vuln_score vulns) ! (length vulns div 2)
               else (sort (map vuln_score vulns) ! (length vulns div 2 - 1) +
                     sort (map vuln_score vulns) ! (length vulns div 2)) / 2) \<and>
            ap_damage ap = sum_list (map vuln_impact vulns) / real (length vulns) \<and>
            ap_risk ap = ap_likelihood ap * ap_impact ap / 10 \<and>
            ap_hash ap = h trace"
    by (intro exI [of _ ap]) simp
next
  assume "convert_reachability_to_ap h m path preferred_cves rnd = Inr (Some ap')"
  then obtain vs ts where
    loop: "exploit_loop m preferred_cves PRIV_GUEST path rnd = Inr (vs, ts)" and
    init: "AttackPath_init h (join ''##'' ts) vs (take (length vs) path) = Inr ap'"
    by (blast dest: convert_shape)
  from loop have le: "length vs \<le> length path" by (simp add: exploit_loop_lengths)
  note f = AttackPath_init_fields [OF init]
  from f(1) have one: "1 \<le> length vs" by (cases vs) simp_all
  from f show "ap_edges ap' = take (ap_length ap') path" by simp
  from f show "ap_length ap' = length (ap_vulns ap')" by simp
  from f le show "length (ap_vulns ap') = length (ap_edges ap')" by simp
  from f one show "1 \<le> ap_length ap'" by simp
next
  assume "from_trace h trace' m' = Inr ap''"
  then obtain es vs where
    parse: "parse_steps m' (split trace' ''##'') = Inr (es, vs)" and
    init: "AttackPath_init h trace' vs es = Inr ap''"
    by (auto simp: from_trace_def split: sum.splits)
  from parse have len: "length es = length vs" by (simp add: parse_steps_lengths)
  note f = AttackPath_init_fields [OF init]
  from f(1) have one: "1 \<le> length vs" by (cases vs) simp_all
  from f show "ap_trace ap'' = trace'" by simp
  from f show "ap_length ap'' = length (ap_vulns ap'')" by simp
  from f len show "length (ap_vulns ap'') = length (ap_edges ap'')" by simp
  from f one show "1 \<le> ap_length ap''" by simp
qed

theorem attack_path_invariants_witness:
  "\<exists>ap ap'.
     AttackPath_init (\<lambda>t. t) ''guest@1#CVE-A#user@2'' [ex_vuln ''CVE-A'' PRIV_GUEST PRIV_USER]
       [(1, 2)] = Inr ap \<and>
     ap_vulns ap = [ex_vuln ''CVE-A'' PRIV_GUEST PRIV_USER] \<and> ap_edges ap = [(1, 2)] \<and>
     ap_length ap = 1 \<and> length (ap_edges ap) = length (ap_vulns ap) \<and>
     ap_likelihood ap = 5 \<and> ap_impact ap = 5 \<and> ap_score ap = 5 \<and> ap_damage ap = 5 \<and>
     ap_risk ap = 5 / 2 \<and> ap_hash ap = ''guest@1#CVE-A#user@2'' \<and>
     convert_reachability_to_ap (\<lambda>t. t) ex_model [(1, 2), (2, 3)] None (\<lambda>k. 0)
       = Inr (Some ap') \<and>
     ap_edges ap' = take (ap_length ap') [(1, 2), (2, 3)] \<and>
     length (ap_vulns ap') = length (ap_edges ap') \<and>
     from_trace (\<lambda>t. t) ''user@1#CVE-A#user@2'' ex_model = Inr ex_ap1 \<and>
     length (ap_vulns ex_ap1) = length (ap_edges ex_ap1) \<and> 1 \<le> ap_length ex_ap1"
proof -
  from example_path_built obtain ap' where
    ap': "convert_reachability_to_ap (\<lambda>t. t) ex_model [(1, 2), (2, 3)] None (\<lambda>k. 0)
           = Inr (Some ap')" ..
  note inv = attack_path_invariants [of "[ex_vuln ''CVE-A'' PRIV_GUEST PRIV_USER]" "\<lambda>t. t"
      "''guest@1#CVE-A#user@2''" "[(1, 2)]" ex_model "[(1, 2), (2, 3)]" None "\<lambda>k. 0" ap'
      "''user@1#CVE-A#user@2''" ex_model ex_ap1]
  from inv [THEN conjunct1] have
    "\<exists>ap. AttackPath_init (\<lambda>t. t) ''guest@1#CVE-A#user@2'' [ex_vuln ''CVE-A'' PRIV_GUEST PRIV_USER]
       [(1, 2)] = Inr ap \<and>
     ap_vulns ap = [ex_vuln ''CVE-A'' PRIV_GUEST PRIV_USER] \<and> ap_edges ap = [(1, 2)] \<and>
     ap_length ap = 1 \<and> length (ap_edges ap) = length (ap_vulns ap) \<and>
     ap_likelihood ap = 5 \<and> ap_impact ap = 5 \<and> ap_score ap = 5 \<and> ap_damage ap = 5 \<and>
     ap_risk ap = 5 / 2 \<and> ap_hash ap = ''guest@1#CVE-A#user@2''"
    apply (simp add: ex_vuln_def vuln_likelihood_def vuln_impact_def vuln_score_def
        default_features_def)
    apply (erule exE)
    subgoal for ap by (rule exI [of _ ap]) (elim conjE, simp)
    done
  moreover from inv [THEN conjunct2, THEN conjunct1] ap' have
    "ap_edges ap' = take (ap_length ap') [(1, 2), (2, 3)] \<and>
    length (ap_vulns ap') = length (ap_edges ap')" by blast
  moreover from inv [THEN conjunct2, THEN conjunct2] example_from_trace have
    "length (ap_vulns ex_ap1) = length (ap_edges ex_ap1) \<and> 1 \<le> ap_length ex_ap1" by blast
  ultimately show ?thesis using ap' example_from_trace by blast
qed

subsection \<open>Evaluating the examples\<close>

lemmas statistics_eval =
  update_statistics_def AttackPathStatistics_update_def update_loop.simps update_one_def
  update_hosts_and_edges_def py_increment_def get_metric_index_def METRIC_STEPS_def
  py_trunc_def AttackPathStatistics_init_def MAX_LENGTH_def increment_at_def length_index_def

lemmas generator_eval =
  run_calls.simps run_steps.simps apply_call.simps fresh_bootstraps.simps
  SteeringPathGenerator_step_def PathGenerator_step_def add_bootstrap_def
  can_steer_def update_steering_vulns_def sample_attack_paths_def finish_step_def
  advance_iteration_def update_paths_def statistics_eval
  SteeringPathGenerator_init_def PathGenerator_init_def PathGenerator.defs
  SteeringPathGenerator.defs check_bounds_def in_range_def ex_query_def py_slice_from_def
  convert_reachability_to_ap_def ex_model_def ex_host_def ex_vuln_def
  random_choice_def AttackPath_init_def statistics_mean_def statistics_median_def Let_def
  str_int_def str_nat.simps vuln_likelihood_def vuln_impact_def vuln_score_def
  default_features_def
  from_trace_def split_def host_of_field_def py_int_def strip_def is_space_def digit_val_def

text \<open>The pool of the second network, and what a tree predicts on it.\<close>

lemma ex_pool_lookup:
  "ex_pool ''CVE-H'' = Some (ex_cve ''CVE-H'' 8)"
  "ex_pool ''CVE-M'' = Some (ex_cve ''CVE-M'' 6)"
  "ex_pool ''CVE-L'' = Some (ex_cve ''CVE-L'' 2)"
  by (simp_all add: ex_pool_def)

lemma predict_pool_ex_pool:
  "predict_pool dtree ex_pool =
     (if dtree (base_features (ex_cve ''CVE-H'' 8)) then {''CVE-H''} else {}) \<union>
     (if dtree (base_features (ex_cve ''CVE-M'' 6)) then {''CVE-M''} else {}) \<union>
     (if dtree (base_features (ex_cve ''CVE-L'' 2)) then {''CVE-L''} else {})"
  by (auto simp: predict_pool_def ex_pool_def split: option.splits if_splits)

lemmas steering_eval =
  generator_eval ex_generator_def ex_steps_def ex_net_def ex_likely_def ex_pool_lookup
  predict_pool_ex_pool ex_cve_def ex_fit_def update_steering_compliant_vulns_def
  features_of.simps to_features_vector_def SteeringBaseFeatures_median_def np_median_def
  int_median_def

lemmas sampler_eval =
  PassingThrough_sample_def sample_length_def py_trunc_def random_choice_def
  random_randint_def sample_one_end_def sample_next_host_def unvisited_neighbors_def
  successors_def predecessors_def first_occurrences_def is_node_def random_random_def
  ex_sampler_def ex_model_def ex_star_sampler_def ex_star_def Let_def

subsection \<open>The one-end walk\<close>

text \<open>Whatever the direction, the walk draws its next hosts among the successors: the
  backward walk is the forward walk with every edge swapped and the order reversed.\<close>

lemma walk_backward_is_forward:
  "walk s False n current_host visited (rev (map prod.swap path)) rnd =
   map_sum id (\<lambda>(p, v). (rev (map prod.swap p), v)) (walk s True n current_host visited path rnd)"
proof (induction n arbitrary: current_host visited path rnd)
  case 0
  then show ?case by simp
next
  case (Suc n)
  show ?case
  proof (cases "sample_next_host s current_host visited True (rnd 0)")
    case (Inl e)
    then show ?thesis by simp
  next
    case (Inr r)
    show ?thesis
    proof (cases r)
      case None
      with Inr show ?thesis by simp
    next
      case (Some next_host)
      from Suc.IH [of next_host "insert next_host visited" "path @ [(current_host, next_host)]"
          "\<lambda>k. rnd (Suc k)"] Inr Some
      show ?thesis by simp
    qed
  qed
qed

lemma sample_one_end_backward_is_forward:
  "sample_one_end s start_host max_len False visited rnd =
   map_sum id (\<lambda>(p, v). (rev (map prod.swap p), v))
     (sample_one_end s start_host max_len True visited rnd)"
  using walk_backward_is_forward [of s "nat max_len" start_host "insert start_host visited" "[]" rnd]
  by (simp add: sample_one_end_def)

text \<open>
  C2 at a failing input, the line network 1 \<rightarrow> 2 \<rightarrow> 3 \<rightarrow> 4. Walking backward from 4, the
  predecessors of 4 that are not visited are \<open>[3]\<close>, but the walk finds no candidate and
  returns the empty path. Walking backward from 1, there is no predecessor, but the walk
  takes the successor 2 and returns the edge \<open>(2, 1)\<close>, which is not an edge of the graph.
\<close>

theorem backward_walk_takes_successors:
  "unvisited_neighbors ex_model 4 {4} False = Inr [3] \<and>
   sample_one_end ex_sampler 4 1 False {} (\<lambda>k. 0) = Inr ([], {4}) \<and>
   unvisited_neighbors ex_model 1 {1} False = Inr [] \<and>
   sample_one_end ex_sampler 1 1 False {} (\<lambda>k. 0) = Inr ([(2, 1)], {2, 1}) \<and>
   (2, 1) \<notin> set (graph_edges ex_model)"
  by (simp add: sampler_eval)

subsection \<open>The strategy PassingThrough\<close>

text \<open>
  C7 at a failing input: the star with centre 1 linked both ways to 2 and 3, pivot 1,
  length 2 split 1 + 1. The forward walk gives \<open>(1, 2)\<close>, the backward walk \<open>(3, 1)\<close>, and
  the strategy returns the forward part first: \<open>[(1, 2), (3, 1)]\<close>, whose edges do not
  share an endpoint. The backward part first would read \<open>3 \<rightarrow> 1 \<rightarrow> 2\<close>.
\<close>

theorem passing_through_forward_part_first:
  "PassingThrough_sample ex_star_sampler [1] 2 0 0 1 (\<lambda>k. 0) (\<lambda>k. 0) = Inr [(1, 2), (3, 1)] \<and>
   map_sum id fst (sample_one_end ex_star_sampler 1 1 True {} (\<lambda>k. 0)) = Inr [(1, 2)] \<and>
   map_sum id fst (sample_one_end ex_star_sampler 1 1 False {2, 1} (\<lambda>k. 0)) = Inr [(3, 1)] \<and>
   \<not> chained [(1, 2), (3, 1)] \<and> chained [(3, 1), (1, 2)]"
  by (simp add: sampler_eval)

subsection \<open>The tally of lengths\<close>

lemma py_increment_length: "py_increment xs i = Inr ys \<Longrightarrow> length ys = length xs"
  by (auto simp: py_increment_def split: if_splits)









text \<open>A path with a likelihood above 10 raises IndexError: nothing is tallied.\<close>

lemma update_raises_above_ten:
  "AttackPathStatistics_update AttackPathStatistics_init [ex_ap1\<lparr> ap_likelihood := 11 \<rparr>]
     = Inl IndexError"
  by (simp add: AttackPathStatistics_update_def update_one_def update_hosts_and_edges_def
      py_increment_def get_metric_index_def METRIC_STEPS_def py_trunc_def
      AttackPathStatistics_init_def MAX_LENGTH_def Let_def)




text \<open>The count of lengths in \<open>update_stability\<close> is the one that puts length \<open>L\<close> at index
  \<open>L - 1\<close>, for \<open>1 \<le> L \<le> 40\<close>.\<close>

lemma count_length_index:
  assumes "length count_len = 40" and "1 \<le> le"
  shows "count_length count_len le =
           Inr (count_len[min le 40 - 1 := count_len ! (min le 40 - 1) + 1])"
  using assms by (auto simp: count_length_def LENGTH_BINS_def increment_at_def min_def)

subsection \<open>The joint histogram of lengths\<close>

lemma length_histogram_loop_last:
  "length h0 = MAX_LENGTH \<Longrightarrow> \<forall>(le, c) \<in> set len_counts. 0 \<le> le \<Longrightarrow>
   \<exists>h. length_histogram_loop h0 len_counts = Inr h \<and> length h = MAX_LENGTH \<and>
     h ! 39 = (case filter (\<lambda>(le, c). 39 \<le> le) len_counts of
                 [] \<Rightarrow> h0 ! 39
               | ws \<Rightarrow> snd (last ws))"
proof (induction len_counts arbitrary: h0)
  case Nil
  then show ?case by simp
next
  case (Cons p len_counts)
  obtain le c where p: "p = (le, c)" by (cases p)
  let ?i = "if le \<ge> int MAX_LENGTH then int MAX_LENGTH - 1 else le"
  let ?h1 = "h0[nat ?i := c]"
  from Cons.prems p have le: "0 \<le> le" by simp
  with Cons.prems(1) have w: "py_setitem h0 ?i c = Inr ?h1"
    by (simp add: py_setitem_def MAX_LENGTH_def)
  from Cons.prems(1) have len1: "length ?h1 = MAX_LENGTH" by simp
  from Cons.prems(2) have "\<forall>(le, c) \<in> set len_counts. 0 \<le> le" by simp
  from Cons.IH [OF len1 this] obtain h where
    h: "length_histogram_loop ?h1 len_counts = Inr h" "length h = MAX_LENGTH" and
    v: "h ! 39 = (case filter (\<lambda>(le, c). 39 \<le> le) len_counts of
                    [] \<Rightarrow> ?h1 ! 39
                  | ws \<Rightarrow> snd (last ws))" by blast
  from w h(1) p have r: "length_histogram_loop h0 (p # len_counts) = Inr h"
    by (simp split: if_splits)
  have "?h1 ! 39 = (if 39 \<le> le then c else h0 ! 39)"
    using le Cons.prems(1) by (auto simp: MAX_LENGTH_def nth_list_update)
  with v p have "h ! 39 = (case filter (\<lambda>(le, c). 39 \<le> le) (p # len_counts) of
                    [] \<Rightarrow> h0 ! 39
                  | ws \<Rightarrow> snd (last ws))"
    by (auto split: list.splits)
  with r h(2) show ?case by blast
qed

text \<open>
  C10, as stated: with the value counts \<open>(40, 5), (41, 3), (39, 1)\<close> the last-processed
  length that is at least 40 is 41, with count 3, but the last bucket ends up with 1, the
  count of the length 39, which is written to the same index.
\<close>

theorem last_bucket_overwritten_by_39:
  "map_sum id (\<lambda>h. h ! 39) (length_histogram [(40, 5), (41, 3), (39, 1)]) = Inr 1 \<and>
   snd (last (filter (\<lambda>(le, c). le \<ge> 40) [(40 :: int, 5 :: int), (41, 3), (39, 1)])) = 3"
  by (simp add: length_histogram_def MAX_LENGTH_def py_setitem_def eval_nat_numeral)

text \<open>
  C10, amended. The last bucket (index 39) is assigned, not accumulated, once for each
  length value of 39 or more: on value counts whose lengths are not negative the
  computation returns a histogram of 40 entries whose last one is the count of the
  last-processed length value that is at least 39, or 0 when there is none.
\<close>

theorem length_histogram_last_bucket:
  assumes "\<forall>p \<in> set len_counts. 0 \<le> fst p"
  shows "\<exists>h. length_histogram len_counts = Inr h \<and> length h = 40 \<and>
           h ! 39 = (case filter (\<lambda>(le, c). 39 \<le> le) len_counts of
                       [] \<Rightarrow> 0
                     | ws \<Rightarrow> snd (last ws))"
proof -
  have l: "length (replicate MAX_LENGTH (0 :: int)) = MAX_LENGTH" by simp
  from assms have "\<forall>(le, c) \<in> set len_counts. 0 \<le> le" by auto
  from length_histogram_loop_last [OF l this] obtain h where
    h: "length_histogram_loop (replicate MAX_LENGTH 0) len_counts = Inr h" and
    "length h = MAX_LENGTH" and
    "h ! 39 = (case filter (\<lambda>(le, c). 39 \<le> le) len_counts of
                 [] \<Rightarrow> replicate MAX_LENGTH 0 ! 39
               | ws \<Rightarrow> snd (last ws))" by blast
  moreover have z: "replicate MAX_LENGTH (0 :: int) ! 39 = 0" by (simp add: MAX_LENGTH_def)
  ultimately have "length h = 40" and
    "h ! 39 = (case filter (\<lambda>(le, c). 39 \<le> le) len_counts of
                 [] \<Rightarrow> 0
               | ws \<Rightarrow> snd (last ws))"
    unfolding z by (simp_all add: MAX_LENGTH_def)
  with h show ?thesis by (simp add: length_histogram_def)
qed

theorem length_histogram_last_bucket_witness:
  "0 \<le> fst (40 :: int, 5 :: int) \<and> 0 \<le> fst (41 :: int, 3 :: int) \<and>
   (\<exists>h. length_histogram [(40, 5), (41, 3)] = Inr h \<and> length h = 40 \<and> h ! 39 = 3)"
proof -
  have "\<forall>p \<in> set [(40 :: int, 5 :: int), (41, 3)]. 0 \<le> fst p" by simp
  from length_histogram_last_bucket [OF this] obtain h where
    "length_histogram [(40, 5), (41, 3)] = Inr h" and "length h = 40" and
    "h ! 39 = (case filter (\<lambda>(le, c). 39 \<le> le) [(40 :: int, 5 :: int), (41, 3)] of
                 [] \<Rightarrow> 0
               | ws \<Rightarrow> snd (last ws))"
    by blast
  then show ?thesis by simp
qed

subsection \<open>Unique hashes and generated counts\<close>

lemma sample_loop_card:
  "sample_loop sha m limit pref paths rnd (hs, aps, n, c) = Inr (hs', aps', n', c') \<Longrightarrow>
   finite hs \<Longrightarrow>
   finite hs' \<and> card hs' + c' + n = card hs + c + n' \<and> c' + n \<le> n' + c"
proof (induction paths arbitrary: rnd hs aps n c)
  case Nil
  then show ?case by simp
next
  case (Cons path paths)
  show ?case
  proof (cases "n = limit")
    case True
    with Cons.prems show ?thesis by simp
  next
    case nl: False
    show ?thesis
    proof (cases "path = []")
      case True
      with Cons.prems(1) nl have
        "sample_loop sha m limit pref paths (\<lambda>i. rnd (Suc i)) (hs, aps, n, c)
           = Inr (hs', aps', n', c')" by simp
      from Cons.IH [OF this Cons.prems(2)] show ?thesis .
    next
      case ne: False
      show ?thesis
      proof (cases "convert_reachability_to_ap sha m path pref (rnd 0)")
        case (Inl e)
        with Cons.prems nl ne show ?thesis by simp
      next
        case (Inr r)
        show ?thesis
        proof (cases r)
          case None
          with Cons.prems(1) nl ne Inr have
            "sample_loop sha m limit pref paths (\<lambda>i. rnd (Suc i)) (hs, aps, n, c)
               = Inr (hs', aps', n', c')" by simp
          from Cons.IH [OF this Cons.prems(2)] show ?thesis .
        next
          case (Some ap)
          show ?thesis
          proof (cases "ap_hash ap \<in> hs")
            case True
            with Cons.prems(1) nl ne Inr Some have
              "sample_loop sha m limit pref paths (\<lambda>i. rnd (Suc i)) (hs, aps, n + 1, c + 1)
                 = Inr (hs', aps', n', c')" by simp
            from Cons.IH [OF this Cons.prems(2)] show ?thesis by simp
          next
            case False
            with Cons.prems(1) nl ne Inr Some have
              "sample_loop sha m limit pref paths (\<lambda>i. rnd (Suc i))
                 (insert (ap_hash ap) hs, aps @ [ap], n + 1, c) = Inr (hs', aps', n', c')"
              by simp
            moreover from Cons.prems(2) have "finite (insert (ap_hash ap) hs)" by simp
            ultimately have "finite hs' \<and>
                card hs' + c' + (n + 1) = card (insert (ap_hash ap) hs) + c + n' \<and>
                c' + (n + 1) \<le> n' + c" by (rule Cons.IH)
            with False Cons.prems(2) show ?thesis by simp
          qed
        qed
      qed
    qed
  qed
qed

lemma sample_attack_paths_effect:
  assumes "sample_attack_paths sha g pref sampled rnd = Inr (g', aps)"
    and "finite (unique_hashes g)"
  shows "finite (unique_hashes g') \<and>
         (\<exists>k. generated g' = generated g @ [k] \<and>
              card (unique_hashes g') = card (unique_hashes g) + k)"
proof -
  from assms(1) obtain hs' n' c' where
    loop: "sample_loop sha (model_g g) (sample_size g) pref
             (filter (\<lambda>path. path \<noteq> []) (take (sample_size g) sampled)) rnd
             (unique_hashes g, [], 0, 0) = Inr (hs', aps, n', c')" and
    g': "unique_hashes g' = hs'" "generated g' = generated g @ [n' - c']"
    by (auto simp: sample_attack_paths_def split: sum.splits)
  from sample_loop_card [OF loop assms(2)] have
    "finite hs'" "card hs' + c' = card (unique_hashes g) + n'" "c' \<le> n'" by simp_all
  with g' show ?thesis by simp
qed

lemma update_paths_frame:
  "unique_hashes (fst (update_paths g aps)) = unique_hashes g"
  "generated (fst (update_paths g aps)) = generated g"
  "statistics (fst (update_paths g aps)) = statistics g"
  by (simp_all add: update_paths_def Let_def)

lemma advance_iteration_frame:
  assumes "advance_iteration g aps = Inr (g', res)"
  shows "unique_hashes g' = unique_hashes g \<and> generated g' = generated g"
proof -
  obtain g1 q n where u: "update_paths g aps = (g1, q, n)" by (cases "update_paths g aps")
  with update_paths_frame [of g aps] have e: "unique_hashes g1 = unique_hashes g" "generated g1 = generated g"
    by simp_all
  from assms u obtain stats where
    "g' = g1\<lparr> statistics := stats,
                        query_hashes := query_hashes g1 \<union> ap_hash ` set q,
                        query_generated := query_generated g1 @ [length q] \<rparr>"
    by (cases "update_statistics (statistics g1) q") (auto simp: advance_iteration_def)
  with e show ?thesis by simp
qed

lemma finish_step_frame:
  assumes "finish_step b g aps = Inr (g', res)"
  shows "unique_hashes g' = unique_hashes g \<and> generated g' = generated g"
proof -
  from assms obtain g1 where a: "advance_iteration g aps = Inr (g1, res)"
    and g': "g' = g1\<lparr> steering := steering g1 @ [b], iteration := iteration g1 + 1 \<rparr>"
    by (cases "advance_iteration g aps") (auto simp: finish_step_def)
  from advance_iteration_frame [OF a] g' show ?thesis by simp
qed

lemma PathGenerator_step_effect:
  assumes "PathGenerator_step sha g sampled rnd = Inr (g', aps)"
    and "finite (unique_hashes g)"
  shows "finite (unique_hashes g') \<and>
         (\<exists>k. generated g' = generated g @ [k] \<and>
              card (unique_hashes g') = card (unique_hashes g) + k)"
proof -
  from assms(1) obtain g1 where
    s: "sample_attack_paths sha g None sampled rnd = Inr (g1, aps)" and
    e: "unique_hashes g' = unique_hashes g1" "generated g' = generated g1"
    by (auto simp: PathGenerator_step_def split: sum.splits)
  from sample_attack_paths_effect [OF s assms(2)] e show ?thesis by simp
qed

lemma update_steering_compliant_vulns_frame:
  assumes "update_steering_compliant_vulns fit g = Inr g'"
  shows "unique_hashes g' = unique_hashes g \<and> generated g' = generated g"
  using assms
  by (auto simp: update_steering_compliant_vulns_def Let_def split: sum.splits if_splits)

lemma SteeringPathGenerator_step_effect:
  assumes "SteeringPathGenerator_step fit sha g sampled rnd = Inr (g', res)"
    and "finite (unique_hashes g)"
  shows "finite (unique_hashes g') \<and>
         (\<exists>k. generated g' = generated g @ [k] \<and>
              card (unique_hashes g') = card (unique_hashes g) + k)"
proof -
  have "\<exists>g0 pref g2 aps b.
          sample_attack_paths sha g0 pref sampled rnd = Inr (g2, aps) \<and>
          finish_step b g2 aps = Inr (g', res) \<and>
          unique_hashes g0 = unique_hashes g \<and> generated g0 = generated g"
  proof (cases "can_steer g")
    case False
    with assms(1) have "case sample_attack_paths sha g None sampled rnd of
        Inl e \<Rightarrow> False | Inr (g2, aps) \<Rightarrow> finish_step False g2 aps = Inr (g', res)"
      by (simp add: SteeringPathGenerator_step_def split: sum.splits prod.splits)
    then show ?thesis by (fastforce split: sum.splits prod.splits)
  next
    case True
    with assms(1) obtain upd where u: "update_steering_vulns g = Inr upd"
      by (cases "update_steering_vulns g") (simp_all add: SteeringPathGenerator_step_def)
    let ?r = "if upd \<or> steering_compliant_vulns g = {}
              then update_steering_compliant_vulns fit g else Inr g"
    from assms(1) True u obtain g1 where r: "?r = Inr g1"
      by (cases ?r) (simp_all add: SteeringPathGenerator_step_def)
    then have e: "unique_hashes g1 = unique_hashes g \<and> generated g1 = generated g"
      by (auto dest: update_steering_compliant_vulns_frame split: if_splits)
    from assms(1) True u r have "case sample_attack_paths sha g1
          (Some (steering_compliant_vulns g1)) sampled rnd of
        Inl e \<Rightarrow> False | Inr (g2, aps) \<Rightarrow> finish_step True g2 aps = Inr (g', res)"
      by (simp add: SteeringPathGenerator_step_def split: sum.splits prod.splits)
    with e show ?thesis by (fastforce split: sum.splits prod.splits)
  qed
  then obtain g0 pref g2 aps b where
    s: "sample_attack_paths sha g0 pref sampled rnd = Inr (g2, aps)" and
    f: "finish_step b g2 aps = Inr (g', res)" and
    e: "unique_hashes g0 = unique_hashes g" "generated g0 = generated g"
    by blast
  from assms(2) e have "finite (unique_hashes g0)" by simp
  from sample_attack_paths_effect [OF s this] finish_step_frame [OF f] e show ?thesis by simp
qed

lemma AttackPath_init_hash: "AttackPath_init h trace vulns edges = Inr ap \<Longrightarrow> ap_hash ap = h trace"
  by (auto simp: AttackPath_init_def Let_def split: sum.splits if_splits)

lemma from_traces_hashes:
  "from_traces sha m paths = Inr aps \<Longrightarrow> map ap_hash aps = map sha paths"
proof (induction paths arbitrary: aps)
  case Nil
  then show ?case by simp
next
  case (Cons p paths)
  from Cons.prems obtain ap aps' where
    "from_trace sha p m = Inr ap" "from_traces sha m paths = Inr aps'" "aps = ap # aps'"
    by (auto split: sum.splits)
  moreover from this(1) have "ap_hash ap = sha p"
    by (auto simp: from_trace_def split: sum.splits dest: AttackPath_init_hash)
  ultimately show ?case using Cons.IH by simp
qed

lemma add_bootstrap_effect:
  assumes "add_bootstrap sha g paths = Inr (g', res)"
  shows "unique_hashes g' = unique_hashes g \<union> set (map sha paths) \<and>
         generated g' = generated g @ [length paths]"
proof -
  from assms obtain aps where
    t: "from_traces sha (model_g g) paths = Inr aps" and
    f: "finish_step False
          (g\<lparr> generated := generated g @ [length aps], collision := collision g @ [0],
              unique_hashes := unique_hashes g \<union> set (map ap_hash aps) \<rparr>) aps = Inr (g', res)"
    by (auto simp: add_bootstrap_def split: sum.splits)
  from from_traces_hashes [OF t] have "map ap_hash aps = map sha paths" .
  moreover from this have "length aps = length paths" by (metis length_map)
  ultimately show ?thesis using finish_step_frame [OF f] by simp
qed

lemma run_steps_inv:
  "run_steps sha g steps = Inr g' \<Longrightarrow> finite (unique_hashes g) \<Longrightarrow>
     card (unique_hashes g) = sum_list (generated g) \<Longrightarrow>
     finite (unique_hashes g') \<and> card (unique_hashes g') = sum_list (generated g')"
proof (induction steps arbitrary: g)
  case Nil
  then show ?case by simp
next
  case (Cons s steps)
  obtain sampled rnd where s: "s = (sampled, rnd)" by (cases s)
  from Cons.prems(1) s obtain g1 aps where
    st: "PathGenerator_step sha g sampled rnd = Inr (g1, aps)" and
    r: "run_steps sha g1 steps = Inr g'"
    by (auto split: sum.splits)
  from PathGenerator_step_effect [OF st Cons.prems(2)] Cons.prems(3)
  have "finite (unique_hashes g1)" "card (unique_hashes g1) = sum_list (generated g1)" by auto
  with r show ?case by (rule Cons.IH)
qed

lemma apply_call_le:
  assumes "apply_call classifier sha g c = Inr g'"
    and "finite (unique_hashes g)"
    and "card (unique_hashes g) \<le> sum_list (generated g)"
  shows "finite (unique_hashes g') \<and> card (unique_hashes g') \<le> sum_list (generated g')"
proof (cases c)
  case (Step sampled rnd)
  with assms(1) obtain res where
    "SteeringPathGenerator_step classifier sha g sampled rnd = Inr (g', res)"
    by (cases "SteeringPathGenerator_step classifier sha g sampled rnd") auto
  from SteeringPathGenerator_step_effect [OF this assms(2)] assms(3) show ?thesis by auto
next
  case (Bootstrap paths)
  with assms(1) obtain res where "add_bootstrap sha g paths = Inr (g', res)"
    by (cases "add_bootstrap sha g paths") auto
  from add_bootstrap_effect [OF this] have
    u: "unique_hashes g' = unique_hashes g \<union> set (map sha paths)" and
    gen: "generated g' = generated g @ [length paths]" by auto
  have "card (unique_hashes g \<union> set (map sha paths))
          \<le> card (unique_hashes g) + card (set (map sha paths))" by (rule card_Un_le)
  moreover have "card (set (map sha paths)) \<le> length paths"
    by (metis card_length length_map)
  ultimately show ?thesis using u gen assms(2,3) by simp
qed

lemma apply_call_eq:
  assumes "apply_call classifier sha g c = Inr g'"
    and "finite (unique_hashes g)"
    and "card (unique_hashes g) = sum_list (generated g)"
    and "case c of Bootstrap paths \<Rightarrow>
           distinct (map sha paths) \<and> set (map sha paths) \<inter> unique_hashes g = {}
         | Step sampled rnd \<Rightarrow> True"
  shows "finite (unique_hashes g') \<and> card (unique_hashes g') = sum_list (generated g')"
proof (cases c)
  case (Step sampled rnd)
  with assms(1) obtain res where
    "SteeringPathGenerator_step classifier sha g sampled rnd = Inr (g', res)"
    by (cases "SteeringPathGenerator_step classifier sha g sampled rnd") auto
  from SteeringPathGenerator_step_effect [OF this assms(2)] assms(3) show ?thesis by auto
next
  case (Bootstrap paths)
  with assms(1) obtain res where "add_bootstrap sha g paths = Inr (g', res)"
    by (cases "add_bootstrap sha g paths") auto
  from add_bootstrap_effect [OF this] have
    u: "unique_hashes g' = unique_hashes g \<union> set (map sha paths)" and
    gen: "generated g' = generated g @ [length paths]" by auto
  from assms(4) Bootstrap have d: "distinct (map sha paths)"
    and i: "unique_hashes g \<inter> set (map sha paths) = {}" by auto
  from assms(2) i have "card (unique_hashes g \<union> set (map sha paths))
          = card (unique_hashes g) + card (set (map sha paths))"
    by (simp add: card_Un_disjoint)
  moreover from d have "card (set (map sha paths)) = length paths"
    by (metis distinct_card length_map)
  ultimately show ?thesis using u gen assms(2,3) by simp
qed

lemma run_calls_le:
  "run_calls classifier sha g calls = Inr g' \<Longrightarrow> finite (unique_hashes g) \<Longrightarrow>
     card (unique_hashes g) \<le> sum_list (generated g) \<Longrightarrow>
     card (unique_hashes g') \<le> sum_list (generated g')"
proof (induction calls arbitrary: g)
  case Nil
  then show ?case by simp
next
  case (Cons c calls)
  from Cons.prems(1) obtain g1 where
    a: "apply_call classifier sha g c = Inr g1" and
    r: "run_calls classifier sha g1 calls = Inr g'"
    by (auto split: sum.splits)
  from apply_call_le [OF a Cons.prems(2,3)] r show ?case by (auto intro: Cons.IH)
qed

lemma run_calls_eq:
  "run_calls classifier sha g calls = Inr g' \<Longrightarrow> finite (unique_hashes g) \<Longrightarrow>
     card (unique_hashes g) = sum_list (generated g) \<Longrightarrow>
     fresh_bootstraps classifier sha g calls \<Longrightarrow>
     card (unique_hashes g') = sum_list (generated g')"
proof (induction calls arbitrary: g)
  case Nil
  then show ?case by simp
next
  case (Cons c calls)
  from Cons.prems(1) obtain g1 where
    a: "apply_call classifier sha g c = Inr g1" and
    r: "run_calls classifier sha g1 calls = Inr g'"
    by (auto split: sum.splits)
  from Cons.prems(4) a have
    f: "case c of Bootstrap paths \<Rightarrow>
           distinct (map sha paths) \<and> set (map sha paths) \<inter> unique_hashes g = {}
         | Step sampled rnd \<Rightarrow> True" and
    f': "fresh_bootstraps classifier sha g1 calls" by auto
  from apply_call_eq [OF a Cons.prems(2,3) f] r f' show ?case by (auto intro: Cons.IH)
qed

lemma init_hashes:
  "unique_hashes (PathGenerator_init m n cs) = {}" "generated (PathGenerator_init m n cs) = []"
  "unique_hashes (SteeringPathGenerator_init m q lo hi n cs ns) = {}"
  "generated (SteeringPathGenerator_init m q lo hi n cs ns) = []"
  by (simp_all add: PathGenerator_init_def SteeringPathGenerator_init_def PathGenerator.defs)

text \<open>
  C4, as stated: a bootstrap that is given the same trace twice records two generated
  paths and one unique hash.
\<close>

theorem bootstrap_duplicates_break_count:
  "map_sum id (\<lambda>g. (card (unique_hashes g), sum_list (generated g)))
     (run_calls ex_fit (\<lambda>t. t)
        (SteeringPathGenerator_init ex_model ex_query 20 200 500 True False)
        [Bootstrap [''user@1#CVE-A#user@2'', ''user@1#CVE-A#user@2'']])
   = Inr (1, 2)"
  by (simp add: generator_eval)

text \<open>
  C4, amended. After any sequence of steps of a PathGenerator the number of unique hashes
  is the sum of the generated counts. After any sequence of steps and bootstraps of a
  SteeringPathGenerator it is at most that sum, and it is that sum when every bootstrap
  is given traces whose hashes are pairwise distinct and not yet in \<open>unique_hashes\<close>.
  (The sequences are those whose calls all return.)
\<close>

theorem unique_hashes_generated:
  "(run_steps sha (PathGenerator_init m n cs) steps = Inr g \<longrightarrow>
      card (unique_hashes g) = sum_list (generated g)) \<and>
   (run_calls classifier sha (SteeringPathGenerator_init m' q lo hi n' cs' ns) calls = Inr g' \<longrightarrow>
      card (unique_hashes g') \<le> sum_list (generated g') \<and>
      (fresh_bootstraps classifier sha (SteeringPathGenerator_init m' q lo hi n' cs' ns) calls \<longrightarrow>
         card (unique_hashes g') = sum_list (generated g')))"
  using run_steps_inv [of sha "PathGenerator_init m n cs" steps g]
    run_calls_le [of classifier sha "SteeringPathGenerator_init m' q lo hi n' cs' ns" calls g']
    run_calls_eq [of classifier sha "SteeringPathGenerator_init m' q lo hi n' cs' ns" calls g']
  by (simp add: init_hashes)

theorem unique_hashes_generated_witness:
  "\<exists>g g'. run_steps (\<lambda>t. t) (PathGenerator_init ex_model 2 True)
             [([[(1, 2)], [(1, 2)]], \<lambda>i k. 0), ([[(1, 2), (2, 3)], []], \<lambda>i k. 0)] = Inr g \<and>
           card (unique_hashes g) = sum_list (generated g) \<and>
           run_calls ex_fit (\<lambda>t. t) ex_generator
             (Bootstrap [''guest@1#CVE-H#guest@2''] # ex_steps) = Inr g' \<and>
           fresh_bootstraps ex_fit (\<lambda>t. t) ex_generator
             (Bootstrap [''guest@1#CVE-H#guest@2''] # ex_steps) \<and>
           card (unique_hashes g') = sum_list (generated g')"
proof -
  have "\<exists>g. run_steps (\<lambda>t. t) (PathGenerator_init ex_model 2 True)
             [([[(1, 2)], [(1, 2)]], \<lambda>i k. 0), ([[(1, 2), (2, 3)], []], \<lambda>i k. 0)] = Inr g"
    by (simp add: generator_eval)
  then obtain g where g: "run_steps (\<lambda>t. t) (PathGenerator_init ex_model 2 True)
             [([[(1, 2)], [(1, 2)]], \<lambda>i k. 0), ([[(1, 2), (2, 3)], []], \<lambda>i k. 0)] = Inr g" ..
  have "\<exists>g'. run_calls ex_fit (\<lambda>t. t) ex_generator
             (Bootstrap [''guest@1#CVE-H#guest@2''] # ex_steps) = Inr g'"
    by (simp add: steering_eval)
  then obtain g' where g': "run_calls ex_fit (\<lambda>t. t) ex_generator
             (Bootstrap [''guest@1#CVE-H#guest@2''] # ex_steps) = Inr g'" ..
  have f: "fresh_bootstraps ex_fit (\<lambda>t. t) ex_generator
             (Bootstrap [''guest@1#CVE-H#guest@2''] # ex_steps)"
    by (simp add: steering_eval)
  from unique_hashes_generated [of "\<lambda>t. t" ex_model 2 True _ g ex_fit ex_net ex_likely
      1 200 2 True False _ g'] g g' f
  show ?thesis unfolding ex_generator_def by blast
qed

subsection \<open>The retraining test of the steering step\<close>

text \<open>With five precision values or more the test of the code is the comparison of the
  specification.\<close>

lemma update_steering_vulns_five:
  assumes "5 \<le> length (precision g)"
  shows "update_steering_vulns g =
           Inr (mean_of_last_five (precision g) \<le> last (precision g))"
proof -
  from assms have "length (py_slice_from (- 5) (precision g)) = 5"
    by (simp add: py_slice_from_def)
  moreover from assms have "precision g \<noteq> []" by auto
  ultimately show ?thesis
    by (simp add: update_steering_vulns_def mean_of_last_five_def Let_def)
qed

text \<open>
  C8 at a failing input. After the three steps of the example the generator can steer,
  its precisions are 1, 1/2, 1/2, and its steering-compliant set is \<open>{CVE-H, CVE-M}\<close>, not
  empty: the third step trained the tree on the rows of the paths to 2 and 3 (score 8,
  compliant) and to 4 (score 2), which gives the split at 5. The mean of the three
  precisions, 2/3, is above the last one, so the retraining of the claim is not due; but
  the code divides the sum by 5 and finds 2/5 \<le> 1/2. The fourth step retrains: the rows
  are now those of the paths to 2, 3, 5 (score 8, compliant) and to 4 and 6 (scores 2 and
  6), the split is at 7, and the set becomes \<open>{CVE-H}\<close>.
\<close>

theorem retrains_on_sum_over_five:
  "map_sum id
     (\<lambda>g. (can_steer g, steering_compliant_vulns g, precision g, update_steering_vulns g,
           mean_of_last_five (precision g) \<le> last (precision g)))
     (run_calls ex_fit (\<lambda>t. t) ex_generator ex_steps)
   = Inr (True, {''CVE-H'', ''CVE-M''}, [1, 1 / 2, 1 / 2], Inr True, False) \<and>
   map_sum id steering_compliant_vulns
     (run_calls ex_fit (\<lambda>t. t) ex_generator (ex_steps @ [Step [[], []] (\<lambda>i k. 0)]))
   = Inr {''CVE-H''}"
  by (simp add: steering_eval mean_of_last_five_def) auto

end
